theory Spec2Isabelle
  imports Complex_Main "HOL-Library.Sublist"
begin

section \<open>Strings\<close>

text \<open>
  A JavaScript string is modelled as a \<^typ>\<open>string\<close>, one \<^typ>\<open>char\<close> per code unit, so
  the model covers the strings whose code units are below 256. Truthiness of a string
  (\<^verbatim>\<open>s || d\<close>, \<^verbatim>\<open>if (s)\<close>) is non-emptiness; an optional field is an \<^typ>\<open>'a option\<close>.
\<close>

definition str_includes :: "string \<Rightarrow> string \<Rightarrow> bool" where
  \<comment> \<open>\<^verbatim>\<open>s.includes(t)\<close>\<close>
  "str_includes s t = sublist t s"

definition is_ws :: "char \<Rightarrow> bool" where
  \<comment> \<open>the white space and line terminators that \<^verbatim>\<open>String.prototype.trim\<close> strips, below 256\<close>
  "is_ws c = ((of_char c :: nat) \<in> {9, 10, 11, 12, 13, 32, 160})"

definition trim :: "string \<Rightarrow> string" where
  "trim s = rev (dropWhile is_ws (rev (dropWhile is_ws s)))"

fun split_nl :: "string \<Rightarrow> string list" where
  \<comment> \<open>\<^verbatim>\<open>s.split('\n')\<close>: the empty string gives one empty piece\<close>
  "split_nl [] = [[]]"
| "split_nl (c # cs) =
     (if c = CHR 0x0A then [] # split_nl cs
      else (case split_nl cs of [] \<Rightarrow> [[c]] | l # ls \<Rightarrow> (c # l) # ls))"

fun join :: "string \<Rightarrow> string list \<Rightarrow> string" where
  \<comment> \<open>\<^verbatim>\<open>xs.join(sep)\<close>\<close>
  "join sep [] = []"
| "join sep [x] = x"
| "join sep (x # y # ys) = x @ sep @ join sep (y # ys)"

definition or_else :: "string option \<Rightarrow> string \<Rightarrow> string" where
  \<comment> \<open>\<^verbatim>\<open>s || d\<close> on an optional string\<close>
  "or_else s d = (case s of None \<Rightarrow> d | Some v \<Rightarrow> if v = [] then d else v)"

definition truthy :: "string option \<Rightarrow> bool" where
  "truthy s = (case s of None \<Rightarrow> False | Some v \<Rightarrow> v \<noteq> [])"

section \<open>The attempt log: types of StructuredJsonParser\<close>

text \<open>
  The interfaces of the source, field by field. Request and Response of a log entry are
  optional, since the parser tests them; the Authentication object and the content types,
  which nothing reads, are left out. Status codes are integers, \<^verbatim>\<open>DurationMs\<close> is a real
  number. The HTTP verb of a request is the field \<open>httpMethod\<close>. Records share field names
  as the interfaces do; a selector is qualified by its record where two are in scope.
\<close>

type_synonym headers = "(string \<times> string) list"

record LogRequest =
  Name :: string
  Method :: string
  Uri :: string
  Headers :: "headers option"
  FilePath :: string
  Body :: "string option"

record LogResponse =
  StatusCode :: int
  ReasonPhrase :: string
  Headers :: "headers option"
  Body :: "string option"

record LogMetadata =
  testCaseId :: "string option"
  hasResiliencePipeline :: "bool option"

record StructuredLogEntry =
  RequestId :: string
  StartTime :: string
  EndTime :: string
  DurationMs :: real
  Request :: "LogRequest option"
  Response :: "LogResponse option"
  Errors :: "string list"
  Metadata :: "LogMetadata option"

record LogProperties =
  RequestLogFileEntry :: "StructuredLogEntry option"

record LogEntry =
  Properties :: "LogProperties option"

record RetryAttempt =
  attemptNumber :: nat
  statusCode :: "int option"
  statusText :: "string option"
  errorMessage :: "string option"
  duration :: "string option"
  timestamp :: "string option"
  success :: bool
  reason :: string

record RetryInfo =
  strategyName :: "string option"
  maxAttempts :: "nat option"
  actualAttempts :: "nat option"
  backoffType :: "string option"
  wasRetried :: "bool option"
  attempts :: "RetryAttempt list option"

record InternalRequest =
  httpMethod :: string
  url :: string
  requestHeaders :: headers
  responseHeaders :: headers
  uniqueKey :: "string option"
  title :: "string option"
  name :: "string option"
  templateUrl :: "string option"
  requestBody :: "string option"
  responseStatus :: "int option"
  responseStatusText :: "string option"
  responseBody :: "string option"
  duration :: "string option"
  ErrorMessage :: "string option"
  retryInfo :: "RetryInfo option"

record CliParseResult =
  requests :: "InternalRequest list"
  connectionError :: "string option"
  foundHttpRequest :: bool

section \<open>StructuredJsonParser.parseStructuredJsonRequests\<close>

text \<open>
  The file system is an input: the log file is missing (\<^verbatim>\<open>fs.access\<close> rejects), present but
  unreadable (\<^verbatim>\<open>fs.readFile\<close> rejects with the given error text), or has a content.
  \<^verbatim>\<open>JSON.parse\<close> and the conversion of a number to its decimal string are parameters;
  \<^verbatim>\<open>JSON.parse\<close> returns \<^const>\<open>None\<close> where it throws, or where reading
  \<^verbatim>\<open>.Properties\<close> of its value would. Writing to the output channel is left out.
\<close>

datatype log_file = Missing | Unreadable string | Content string

definition Math_round :: "real \<Rightarrow> int" where
  "Math_round x = \<lfloor>x + 1 / 2\<rfloor>"

definition file_lines :: "string \<Rightarrow> string list" where
  \<comment> \<open>\<^verbatim>\<open>fileContent.trim().split('\n').filter(line => line.trim())\<close>\<close>
  "file_lines fileContent = filter (\<lambda>line. trim line \<noteq> []) (split_nl (trim fileContent))"

text \<open>
  \<^verbatim>\<open>requestMap\<close> is a JavaScript Map, which keeps its keys in insertion order: an association
  list with one pair per key. \<open>addEntry\<close> is the \<^verbatim>\<open>has\<close>/\<^verbatim>\<open>set\<close>/\<^verbatim>\<open>get(...).allEntries.push\<close>
  of the first pass.
\<close>

type_synonym requestMap = "(string \<times> StructuredLogEntry \<times> StructuredLogEntry list) list"

fun addEntry :: "string \<Rightarrow> StructuredLogEntry \<Rightarrow> requestMap \<Rightarrow> requestMap" where
  "addEntry requestKey e [] = [(requestKey, e, [e])]"
| "addEntry requestKey e ((k, firstEntry, allEntries) # rest) =
     (if k = requestKey then (k, firstEntry, allEntries @ [e]) # rest
      else (k, firstEntry, allEntries) # addEntry requestKey e rest)"

definition structuredEntry :: "(string \<Rightarrow> LogEntry option) \<Rightarrow> string \<Rightarrow> StructuredLogEntry option" where
  \<comment> \<open>the entry of a line that passes every check of the loop body, None where the line is skipped\<close>
  "structuredEntry JSON_parse line =
     (case JSON_parse line of
        None \<Rightarrow> None
      | Some logEntry \<Rightarrow>
          (case Properties logEntry of
             None \<Rightarrow> None
           | Some props \<Rightarrow>
               (case RequestLogFileEntry props of
                  None \<Rightarrow> None
                | Some structuredLog \<Rightarrow>
                    (if Request structuredLog = None \<or> Response structuredLog = None then None
                     else Some structuredLog))))"

definition requestKeyOf :: "StructuredLogEntry \<Rightarrow> string" where
  \<comment> \<open>\<^verbatim>\<open>structuredLog.Request.Name\<close>, read only where Request is present\<close>
  "requestKeyOf e = (case Request e of None \<Rightarrow> [] | Some rq \<Rightarrow> LogRequest.Name rq)"

definition processLine ::
  "(string \<Rightarrow> LogEntry option) \<Rightarrow> requestMap \<times> bool \<Rightarrow> string \<Rightarrow> requestMap \<times> bool" where
  \<comment> \<open>one iteration of the first pass; the state is requestMap and foundHttpRequest\<close>
  "processLine JSON_parse st line =
     (case structuredEntry JSON_parse line of
        None \<Rightarrow> st
      | Some structuredLog \<Rightarrow> (addEntry (requestKeyOf structuredLog) structuredLog (fst st), True))"

definition firstPass :: "(string \<Rightarrow> LogEntry option) \<Rightarrow> string list \<Rightarrow> requestMap \<times> bool" where
  "firstPass JSON_parse lines = foldl (processLine JSON_parse) ([], False) lines"

definition attemptSuccess :: "StructuredLogEntry \<Rightarrow> bool" where
  "attemptSuccess entry =
     (case Response entry of
        None \<Rightarrow> False
      | Some r \<Rightarrow> if StatusCode r \<noteq> 0 then 200 \<le> StatusCode r \<and> StatusCode r < 300 else False)"

definition retryAttempt :: "(int \<Rightarrow> string) \<Rightarrow> nat \<Rightarrow> StructuredLogEntry \<Rightarrow> RetryAttempt" where
  "retryAttempt showNum index entry =
     \<lparr> attemptNumber = index + 1,
       statusCode = map_option StatusCode (Response entry),
       statusText = map_option ReasonPhrase (Response entry),
       errorMessage = None,
       RetryAttempt.duration = Some (showNum (Math_round (DurationMs entry)) @ ''ms''),
       timestamp = Some (StartTime entry),
       success = attemptSuccess entry,
       reason = (if index = 0 then ''Initial attempt'' else ''Retry'') \<rparr>"

definition groupErrors :: "StructuredLogEntry list \<Rightarrow> string list" where
  \<comment> \<open>\<^verbatim>\<open>allEntries.flatMap(entry => entry.Errors).filter(err => err)\<close>\<close>
  "groupErrors allEntries = filter (\<lambda>err. err \<noteq> []) (concat (map Errors allEntries))"

text \<open>
  The body of the second pass for one group. Reading \<^verbatim>\<open>lastEntry.Response\<close> of an empty
  group, or \<^verbatim>\<open>firstEntry.Request.Method\<close> of an entry without Request, would throw a
  TypeError; both are branches here.
\<close>

definition internalRequest ::
  "(int \<Rightarrow> string) \<Rightarrow> LogRequest \<Rightarrow> StructuredLogEntry \<Rightarrow> StructuredLogEntry list \<Rightarrow> InternalRequest" where
  \<comment> \<open>the object built for a group whose first entry has the Request \<open>frq\<close>\<close>
  "internalRequest showNum frq firstEntry allEntries =
     (let entriesCount = length allEntries;
          retryAttempts = map (\<lambda>(index, entry). retryAttempt showNum index entry)
                              (enumerate 0 allEntries);
          lastEntry = last allEntries;
          lastStatus = (case Response lastEntry of None \<Rightarrow> 0
                        | Some r \<Rightarrow> if StatusCode r \<noteq> 0 then StatusCode r else 0);
          requestName = LogRequest.Name frq;
          errors = groupErrors allEntries
      in \<lparr> httpMethod = Method frq,
           url = Uri frq,
           requestHeaders = (case LogRequest.Headers frq of None \<Rightarrow> [] | Some h \<Rightarrow> h),
           responseHeaders = (case Response lastEntry of None \<Rightarrow> []
              | Some r \<Rightarrow> (case LogResponse.Headers r of None \<Rightarrow> [] | Some h \<Rightarrow> h)),
           uniqueKey = Some (RequestId firstEntry),
           title = Some requestName,
           name = Some requestName,
           templateUrl = Some (Uri frq),
           requestBody = LogRequest.Body frq,
           responseStatus = Some lastStatus,
           responseStatusText = Some (or_else (map_option ReasonPhrase (Response lastEntry))
                                             ''No Response''),
           responseBody = (case Response lastEntry of None \<Rightarrow> None
              | Some r \<Rightarrow> LogResponse.Body r),
           InternalRequest.duration = Some (showNum (Math_round (DurationMs lastEntry)) @ ''ms''),
           ErrorMessage = (if errors \<noteq> [] then Some (join ''; '' errors) else None),
           retryInfo = Some \<lparr> strategyName =
               (if (case Metadata firstEntry of None \<Rightarrow> False
                    | Some md \<Rightarrow> hasResiliencePipeline md = Some True)
                then Some ''Resilience Pipeline'' else None),
             maxAttempts = None,
             actualAttempts = Some entriesCount,
             backoffType = None,
             wasRetried = Some (entriesCount > 1),
             attempts = Some retryAttempts \<rparr> \<rparr>)"

definition toInternalRequest ::
  "(int \<Rightarrow> string) \<Rightarrow> StructuredLogEntry \<Rightarrow> StructuredLogEntry list \<Rightarrow> string + InternalRequest" where
  "toInternalRequest showNum firstEntry allEntries =
     (case allEntries of
        [] \<Rightarrow> Inl ''TypeError''
      | _ # _ \<Rightarrow>
          (case Request firstEntry of
             None \<Rightarrow> Inl ''TypeError''
           | Some frq \<Rightarrow> Inr (internalRequest showNum frq firstEntry allEntries)))"

fun secondPass ::
  "(int \<Rightarrow> string) \<Rightarrow> requestMap \<Rightarrow> InternalRequest list \<times> string option
     \<Rightarrow> string + InternalRequest list \<times> string option" where
  \<comment> \<open>the loop over the groups in insertion order; the state is requests and connectionError\<close>
  "secondPass showNum [] st = Inr st"
| "secondPass showNum ((k, firstEntry, allEntries) # rest) (reqs, connErr) =
     (case toInternalRequest showNum firstEntry allEntries of
        Inl e \<Rightarrow> Inl e
      | Inr request \<Rightarrow>
          secondPass showNum rest
            (reqs @ [request],
             (case groupErrors allEntries of
                [] \<Rightarrow> connErr
              | err # _ \<Rightarrow> if \<not> truthy connErr then Some err else connErr)))"

definition parseStructuredJsonRequests ::
  "(string \<Rightarrow> LogEntry option) \<Rightarrow> (int \<Rightarrow> string) \<Rightarrow> log_file \<Rightarrow> string + CliParseResult" where
  \<comment> \<open>\<open>Inl\<close> is the error the function rethrows to its caller\<close>
  "parseStructuredJsonRequests JSON_parse showNum f =
     (case f of
        Missing \<Rightarrow>
          Inr \<lparr> requests = [],
                connectionError = Some ''Structured requests file not found - TeaPie might not support --requests-log-file parameter'',
                foundHttpRequest = False \<rparr>
      | Unreadable err \<Rightarrow> Inl err
      | Content fileContent \<Rightarrow>
          (let lines = file_lines fileContent in
           if lines = [] then
             Inr \<lparr> requests = [], connectionError = Some ''Empty JSONL file'', foundHttpRequest = False \<rparr>
           else
             (case firstPass JSON_parse lines of
                (requestMap, found) \<Rightarrow>
                  (case secondPass showNum requestMap ([], None) of
                     Inl e \<Rightarrow> Inl e
                   | Inr (reqs, connErr) \<Rightarrow>
                       Inr \<lparr> requests = reqs, connectionError = connErr, foundHttpRequest = found \<rparr>))))"

section \<open>The unified result: types of HttpRequestTypes and the constants of httpResults\<close>

datatype test_source = inline | csx

record HttpTestResult =
  Name :: string
  Passed :: bool
  Message :: "string option"
  Source :: "test_source option"

record ResultRequest =
  Method :: string
  Url :: string
  TemplateUrl :: "string option"
  Headers :: headers
  Body :: "string option"

record ResultResponse =
  StatusCode :: int
  StatusText :: string
  Headers :: headers
  Body :: "string option"
  Duration :: string

record HttpRequestResult =
  Name :: string
  Status :: string
  Duration :: string
  Request :: "ResultRequest option"
  Response :: "ResultResponse option"
  ErrorMessage :: "string option"
  Tests :: "HttpTestResult list option"
  RetryInfo :: "RetryInfo option"

record HttpRequestGroup =
  Name :: string
  FilePath :: string
  Requests :: "HttpRequestResult list"
  Status :: string
  Duration :: string

text \<open>\<^verbatim>\<open>HttpRequestResults\<close> is \<^verbatim>\<open>{ RequestGroups: { RequestGroup: [...] } }\<close>: the list of its groups.\<close>

type_synonym HttpRequestResults = "HttpRequestGroup list"

definition STATUS_PASSED :: string where "STATUS_PASSED = ''Passed''"
definition STATUS_FAILED :: string where "STATUS_FAILED = ''Failed''"
definition STATUS_TESTS_FAILED :: string where "STATUS_TESTS_FAILED = ''TestsFailed''"


section \<open>TeaPieExecutor: aggregation\<close>

text \<open>
  \<^verbatim>\<open>testResultsFromXml\<close> is a Map read only through \<^verbatim>\<open>get\<close>: a partial function.
  \<^verbatim>\<open>path.basename(filePath, path.extname(filePath))\<close>, \<^verbatim>\<open>parseInt\<close> (\<^const>\<open>None\<close> for NaN) and
  the conversion of a number to a string are parameters.
\<close>

type_synonym testMap = "string \<rightharpoonup> HttpTestResult list"

definition createFailedResult :: "(string \<Rightarrow> string) \<Rightarrow> string \<Rightarrow> string \<Rightarrow> HttpRequestResults" where
  "createFailedResult baseName filePath errorMsg =
     [\<lparr> HttpRequestGroup.Name = baseName filePath,
        FilePath = filePath,
        Requests = [\<lparr> HttpRequestResult.Name = ''HTTP request execution failed'',
                      HttpRequestResult.Status = STATUS_FAILED,
                      HttpRequestResult.Duration = ''0ms'',
                      Request = None,
                      Response = None,
                      ErrorMessage = Some errorMsg,
                      Tests = None,
                      RetryInfo = None \<rparr>],
        HttpRequestGroup.Status = STATUS_FAILED,
        HttpRequestGroup.Duration = ''0s'' \<rparr>]"

definition httpSuccess :: "InternalRequest \<Rightarrow> bool" where
  \<comment> \<open>\<^verbatim>\<open>request.responseStatus && request.responseStatus >= 200 && request.responseStatus < 300\<close>\<close>
  "httpSuccess request =
     (case responseStatus request of
        None \<Rightarrow> False
      | Some st \<Rightarrow> st \<noteq> 0 \<and> 200 \<le> st \<and> st < 300)"

definition inlineTestsOf :: "HttpTestResult list \<Rightarrow> HttpTestResult list" where
  \<comment> \<open>\<^verbatim>\<open>requestTestResults.filter(t => t.Source === 'inline' || !t.Source)\<close>\<close>
  "inlineTestsOf ts = filter (\<lambda>t. Source t = Some inline \<or> Source t = None) ts"

definition hasFailedInlineTests :: "HttpTestResult list \<Rightarrow> bool" where
  "hasFailedInlineTests ts =
     (inlineTestsOf ts \<noteq> [] \<and> list_ex (\<lambda>t. \<not> Passed t) (inlineTestsOf ts))"

definition requestResult ::
  "(int \<Rightarrow> string) \<Rightarrow> testMap \<Rightarrow> nat \<Rightarrow> InternalRequest \<Rightarrow> HttpRequestResult" where
  \<comment> \<open>the callback of \<^verbatim>\<open>structuredResult.requests.map\<close>\<close>
  "requestResult showNum testResultsFromXml index request =
     (let requestName = or_else (name request) (''Request '' @ showNum (int index + 1));
          requestTestResults = (case testResultsFromXml requestName of None \<Rightarrow> [] | Some ts \<Rightarrow> ts);
          status = (if \<not> httpSuccess request then STATUS_FAILED
                    else if hasFailedInlineTests requestTestResults then STATUS_TESTS_FAILED
                    else STATUS_PASSED)
      in \<lparr> HttpRequestResult.Name = requestName,
           HttpRequestResult.Status = status,
           HttpRequestResult.Duration = or_else (InternalRequest.duration request) ''0ms'',
           Request = Some \<lparr> ResultRequest.Method = httpMethod request,
                            Url = url request,
                            TemplateUrl = (case templateUrl request of None \<Rightarrow> None
                                           | Some t \<Rightarrow> if t = [] then None else Some t),
                            ResultRequest.Headers = requestHeaders request,
                            ResultRequest.Body = requestBody request \<rparr>,
           Response = Some \<lparr> ResultResponse.StatusCode =
                               (case responseStatus request of None \<Rightarrow> 0 | Some st \<Rightarrow> st),
                             StatusText = or_else (responseStatusText request) ''No Response'',
                             ResultResponse.Headers = responseHeaders request,
                             ResultResponse.Body = responseBody request,
                             ResultResponse.Duration = or_else (InternalRequest.duration request) ''0ms'' \<rparr>,
           ErrorMessage = InternalRequest.ErrorMessage request,
           Tests = (if requestTestResults \<noteq> [] then Some requestTestResults else None),
           RetryInfo = retryInfo request \<rparr>)"

definition customCsxResult :: "testMap \<Rightarrow> HttpRequestResult list" where
  \<comment> \<open>the entry pushed for the tests under the reserved key, none where there are no such tests\<close>
  "customCsxResult testResultsFromXml =
     (case testResultsFromXml ''_CUSTOM_CSX_TESTS'' of
        None \<Rightarrow> []
      | Some customCsxTests \<Rightarrow>
          if customCsxTests = [] then []
          else [\<lparr> HttpRequestResult.Name = ''Custom CSX Tests'',
                   HttpRequestResult.Status = (if list_all Passed customCsxTests then ''PASSED'' else ''FAILED''),
                   HttpRequestResult.Duration = ''0ms'',
                   Request = None,
                   Response = None,
                   ErrorMessage = None,
                   Tests = Some customCsxTests,
                   RetryInfo = None \<rparr>])"

fun replaceFirst :: "string \<Rightarrow> string \<Rightarrow> string \<Rightarrow> string" where
  \<comment> \<open>\<^verbatim>\<open>s.replace(pat, rep)\<close> with a string pattern: the first occurrence only\<close>
  "replaceFirst pat rep [] = (if pat = [] then rep else [])"
| "replaceFirst pat rep (c # cs) =
     (if prefix pat (c # cs) then rep @ drop (length pat) (c # cs)
      else c # replaceFirst pat rep cs)"

definition groupStatus :: "HttpRequestResult list \<Rightarrow> string" where
  \<comment> \<open>\<^verbatim>\<open>requests.some(r => r.Status === 'FAILED') ? 'FAILED' : 'PASSED'\<close>\<close>
  "groupStatus rs = (if list_ex (\<lambda>r. HttpRequestResult.Status r = ''FAILED'') rs then ''FAILED'' else ''PASSED'')"

definition groupDuration :: "(int \<Rightarrow> string) \<Rightarrow> (string \<Rightarrow> int option) \<Rightarrow> HttpRequestResult list \<Rightarrow> string" where
  \<comment> \<open>the sum is over the integers; the source adds doubles, which agree with it below \<open>2^53\<close>\<close>
  "groupDuration showNum parseInt rs =
     showNum (foldl (\<lambda>total r. total +
                (case parseInt (replaceFirst ''ms'' [] (HttpRequestResult.Duration r)) of
                   None \<Rightarrow> 0 | Some ms \<Rightarrow> ms)) 0 rs) @ ''ms''"

definition buildHttpRequestResults ::
  "(string \<Rightarrow> string) \<Rightarrow> (int \<Rightarrow> string) \<Rightarrow> (string \<Rightarrow> int option) \<Rightarrow>
   string \<Rightarrow> string \<Rightarrow> CliParseResult \<Rightarrow> testMap \<Rightarrow> HttpRequestResults" where
  "buildHttpRequestResults baseName showNum parseInt fileName filePath structuredResult testResultsFromXml =
     (if truthy (connectionError structuredResult) then
        (case connectionError structuredResult of
           Some err \<Rightarrow> createFailedResult baseName filePath err
         | None \<Rightarrow> [])
      else
        (let rs = map (\<lambda>(index, request). requestResult showNum testResultsFromXml index request)
                      (enumerate 0 (requests structuredResult))
                  @ customCsxResult testResultsFromXml
         in [\<lparr> HttpRequestGroup.Name = fileName,
                FilePath = filePath,
                Requests = rs,
                HttpRequestGroup.Status = groupStatus rs,
                HttpRequestGroup.Duration = groupDuration showNum parseInt rs \<rparr>]))"


definition parseOutput ::
  "(string \<Rightarrow> string) \<Rightarrow> (int \<Rightarrow> string) \<Rightarrow> (string \<Rightarrow> int option) \<Rightarrow> (string \<Rightarrow> LogEntry option) \<Rightarrow>
   testMap \<Rightarrow> string \<Rightarrow> log_file \<Rightarrow> HttpRequestResults" where
  \<comment> \<open>\<open>testResultsFromXml\<close> is what \<^verbatim>\<open>XmlTestParser.parseTestResultsFromXml\<close> returned\<close>
  "parseOutput baseName showNum parseInt JSON_parse testResultsFromXml filePath structuredRequestsFile =
     (case parseStructuredJsonRequests JSON_parse showNum structuredRequestsFile of
        Inl structuredError \<Rightarrow>
          createFailedResult baseName filePath
            (''Failed to parse structured JSON requests: '' @ structuredError)
      | Inr structuredParseResult \<Rightarrow>
          if requests structuredParseResult = [] \<and> \<not> foundHttpRequest structuredParseResult
          then createFailedResult baseName filePath ''No HTTP requests found in structured JSON files''
          else buildHttpRequestResults baseName showNum parseInt (baseName filePath) filePath
                 structuredParseResult testResultsFromXml)"

section \<open>XmlTestParser.parseTestResultsFromXml\<close>

text \<open>
  The matches of the three regular expressions are the input: a report is the list of its
  test suites, each with its decoded name and its test cases in document order, a test case
  with its decoded name and the decoded message of its failure element, if it has one. The
  report is \<^const>\<open>None\<close> where no report file is found or reading it fails. The request list
  of \<^verbatim>\<open>HttpFileParser.parseHttpFileForNames\<close> is a parameter, \<^const>\<open>None\<close> where that call
  throws.
\<close>

record XmlTestCase =
  caseName :: string
  failureMessage :: "string option"

record XmlTestSuite =
  suiteName :: string
  testCases :: "XmlTestCase list"

record HttpFileRequest =
  name :: "string option"
  title :: "string option"
  httpMethod :: string
  url :: string
  templateUrl :: "string option"
  requestBody :: "string option"
  hasTestDirectives :: "bool option"
  testDirectiveCount :: "nat option"

definition CUSTOM_CSX_KEY :: string where
  "CUSTOM_CSX_KEY = ''_CUSTOM_CSX_TESTS''"

definition toTestResult :: "XmlTestCase \<Rightarrow> HttpTestResult" where
  "toTestResult tc =
     \<lparr> HttpTestResult.Name = caseName tc,
       Passed = (failureMessage tc = None),
       Message = failureMessage tc,
       Source = Some inline \<rparr>"

definition markCsx :: "HttpTestResult \<Rightarrow> HttpTestResult" where
  \<comment> \<open>\<^verbatim>\<open>test.Source = 'csx'\<close>\<close>
  "markCsx t = t\<lparr>Source := Some csx\<rparr>"

definition fileRequestName :: "HttpFileRequest \<Rightarrow> string" where
  \<comment> \<open>\<^verbatim>\<open>req.name || req.title || `${req.method} ${req.url}`\<close>\<close>
  "fileRequestName req =
     or_else (HttpFileRequest.name req)
       (or_else (HttpFileRequest.title req)
          (HttpFileRequest.httpMethod req @ '' '' @ HttpFileRequest.url req))"

definition directiveCount :: "HttpFileRequest \<Rightarrow> nat" where
  \<comment> \<open>\<^verbatim>\<open>req.testDirectiveCount || 0\<close>\<close>
  "directiveCount req = (case testDirectiveCount req of None \<Rightarrow> 0 | Some c \<Rightarrow> c)"

definition existingCustom :: "testMap \<Rightarrow> HttpTestResult list" where
  \<comment> \<open>\<^verbatim>\<open>allTestsByRequest.get('_CUSTOM_CSX_TESTS') || []\<close>\<close>
  "existingCustom m = (case m CUSTOM_CSX_KEY of None \<Rightarrow> [] | Some ts \<Rightarrow> ts)"

fun distribute :: "HttpFileRequest list \<Rightarrow> HttpTestResult list \<Rightarrow> nat \<Rightarrow> testMap \<Rightarrow> testMap" where
  \<comment> \<open>the loop over \<^verbatim>\<open>httpFileRequests\<close>; the state is \<^verbatim>\<open>testIndex\<close> and \<^verbatim>\<open>allTestsByRequest\<close>\<close>
  "distribute [] inlineTests testIndex m = m"
| "distribute (req # rest) inlineTests testIndex m =
     (if directiveCount req > 0 then
        (let requestTests = take (directiveCount req) (drop testIndex inlineTests)
         in distribute rest inlineTests (testIndex + directiveCount req)
              (if requestTests \<noteq> [] then m(fileRequestName req \<mapsto> requestTests) else m))
      else distribute rest inlineTests testIndex m)"

text \<open>
  One iteration of the loop over the suites; the state is \<^verbatim>\<open>testResults\<close> and
  \<^verbatim>\<open>allTestsByRequest\<close>. \<^verbatim>\<open>csxTests\<close> holds the same objects as the tail of \<^verbatim>\<open>allTests\<close>,
  so marking them also marks the tests stored under the suite name.
\<close>

definition processSuite ::
  "HttpFileRequest list option \<Rightarrow> testMap \<times> testMap \<Rightarrow> XmlTestSuite \<Rightarrow> (testMap \<times> testMap) option" where
  "processSuite directiveSource st suite =
     (let testResults = fst st; allTestsByRequest = snd st;
          allTests = map toTestResult (testCases suite)
      in if allTests = [] then Some st
         else if str_includes (suiteName suite) ''Custom CSX Tests'' then
           Some (testResults,
                 allTestsByRequest(CUSTOM_CSX_KEY \<mapsto> existingCustom allTestsByRequest @ allTests))
         else
           (case directiveSource of
              None \<Rightarrow> None
            | Some httpFileRequests \<Rightarrow>
                if list_ex (\<lambda>req. hasTestDirectives req = Some True) httpFileRequests then
                  (let totalInlineTests = foldl (\<lambda>sum req. sum + directiveCount req) 0 httpFileRequests;
                       inlineTests = take totalInlineTests allTests;
                       csxTests = drop totalInlineTests allTests;
                       distributed = distribute httpFileRequests inlineTests 0 allTestsByRequest
                   in Some (testResults(suiteName suite \<mapsto> inlineTests @ map markCsx csxTests),
                            if csxTests \<noteq> [] then
                              distributed(CUSTOM_CSX_KEY \<mapsto> existingCustom distributed @ map markCsx csxTests)
                            else distributed))
                else
                  Some (testResults(suiteName suite \<mapsto> allTests),
                        allTestsByRequest(CUSTOM_CSX_KEY \<mapsto> existingCustom allTestsByRequest @ allTests))))"

fun suitesLoop ::
  "HttpFileRequest list option \<Rightarrow> testMap \<times> testMap \<Rightarrow> XmlTestSuite list \<Rightarrow> testMap + testMap \<times> testMap" where
  \<comment> \<open>\<open>Inl\<close>: an exception reached the outer catch, which returns \<^verbatim>\<open>testResults\<close> as it is\<close>
  "suitesLoop directiveSource st [] = Inr st"
| "suitesLoop directiveSource st (suite # rest) =
     (case processSuite directiveSource st suite of
        None \<Rightarrow> Inl (fst st)
      | Some st' \<Rightarrow> suitesLoop directiveSource st' rest)"

definition parseTestResultsFromXml ::
  "HttpFileRequest list option \<Rightarrow> XmlTestSuite list option \<Rightarrow> testMap" where
  "parseTestResultsFromXml directiveSource report =
     (case report of
        None \<Rightarrow> Map.empty
      | Some suites \<Rightarrow>
          (case suitesLoop directiveSource (Map.empty, Map.empty) suites of
             Inl testResults \<Rightarrow> testResults
           | Inr (testResults, allTestsByRequest) \<Rightarrow> testResults ++ allTestsByRequest))"

section \<open>XmlTestParser.waitForXmlReportUpdate\<close>

text \<open>
  The clock and the file system are inputs: \<open>now k\<close> is what the \<open>k\<close>-th call of
  \<^verbatim>\<open>Date.now()\<close> returns (call 0 sets \<^verbatim>\<open>startTime\<close>), \<open>stat k\<close> what the \<open>k\<close>-th call of
  \<^verbatim>\<open>fs.stat\<close> does: it rejects, or gives a modification time. The loop may not end (a clock
  that stands still), so it runs on fuel, and \<^const>\<open>None\<close> is running out of it. The function
  returns nothing; the model returns how it came back: after the settle delay, or after
  appending the warning to the output channel.
\<close>

datatype stat_result = StatRejected | Mtime int

datatype wait_return = ReturnedAfterSettle | ReturnedAfterWarning string

definition pollInterval :: int where "pollInterval = 100"

fun waitLoop ::
  "nat \<Rightarrow> (int \<Rightarrow> string) \<Rightarrow> (nat \<Rightarrow> int) \<Rightarrow> (nat \<Rightarrow> stat_result) \<Rightarrow> int \<Rightarrow> int \<Rightarrow> int \<Rightarrow> nat
     \<Rightarrow> wait_return option" where
  "waitLoop 0 showNum now stat startTime beforeTimestamp maxWaitTime k = None"
| "waitLoop (Suc fuel) showNum now stat startTime beforeTimestamp maxWaitTime k =
     (if now (Suc k) - startTime < maxWaitTime then
        (case stat k of
           Mtime currentTimestamp \<Rightarrow>
             if currentTimestamp > beforeTimestamp then Some ReturnedAfterSettle
             else waitLoop fuel showNum now stat startTime beforeTimestamp maxWaitTime (Suc k)
         | StatRejected \<Rightarrow>
             waitLoop fuel showNum now stat startTime beforeTimestamp maxWaitTime (Suc k))
      else Some (ReturnedAfterWarning
                  (''Warning: XML report file was not updated within '' @ showNum maxWaitTime @
                   ''ms. This might indicate an issue with TeaPie test execution.'')))"

definition waitForXmlReportUpdate ::
  "nat \<Rightarrow> (int \<Rightarrow> string) \<Rightarrow> (nat \<Rightarrow> int) \<Rightarrow> (nat \<Rightarrow> stat_result) \<Rightarrow> int \<Rightarrow> int \<Rightarrow> wait_return option" where
  "waitForXmlReportUpdate fuel showNum now stat beforeTimestamp maxWaitMs =
     waitLoop fuel showNum now stat (now 0) beforeTimestamp maxWaitMs 0"

section \<open>TeaPieExecutor.executeTeaPie\<close>









section \<open>Notions used to state the properties\<close>

text \<open>
  The entries of the lines that pass the checks of the first pass, in line order; the grouping
  of a list of entries; the retry groups of a file content; the first non-empty error string
  in the order of the groups; and the lines the specification calls skipped.
\<close>

definition validEntries :: "(string \<Rightarrow> LogEntry option) \<Rightarrow> string \<Rightarrow> StructuredLogEntry list" where
  "validEntries JSON_parse fileContent = List.map_filter (structuredEntry JSON_parse) (file_lines fileContent)"

definition retryGroups :: "(string \<Rightarrow> LogEntry option) \<Rightarrow> string \<Rightarrow> requestMap" where
  "retryGroups JSON_parse fileContent = fst (firstPass JSON_parse (file_lines fileContent))"

definition spec_skipped :: "(string \<Rightarrow> LogEntry option) \<Rightarrow> string \<Rightarrow> bool" where
  \<comment> \<open>after the specification: no JSON, no nested structured entry, or neither Request nor Response\<close>
  "spec_skipped JSON_parse line =
     (case JSON_parse line of
        None \<Rightarrow> True
      | Some logEntry \<Rightarrow>
          (case Properties logEntry of
             None \<Rightarrow> True
           | Some props \<Rightarrow>
               (case RequestLogFileEntry props of
                  None \<Rightarrow> True
                | Some structuredLog \<Rightarrow> StructuredLogEntry.Request structuredLog = None \<and> StructuredLogEntry.Response structuredLog = None)))"

definition groupsOf :: "StructuredLogEntry list \<Rightarrow> requestMap" where
  "groupsOf es = foldl (\<lambda>m e. addEntry (requestKeyOf e) e m) [] es"

definition chains_ok :: "StructuredLogEntry list \<Rightarrow> requestMap \<Rightarrow> bool" where
  "chains_ok es m \<longleftrightarrow>
     distinct (map fst m) \<and> set (map fst m) = requestKeyOf ` set es \<and>
     (\<forall>k f all. (k, f, all) \<in> set m \<longrightarrow>
        all = filter (\<lambda>e. requestKeyOf e = k) es \<and> all \<noteq> [] \<and> f = hd all)"

definition firstError :: "requestMap \<Rightarrow> string option" where
  "firstError m = (case concat (map (\<lambda>(k, f, all). groupErrors all) m) of [] \<Rightarrow> None | err # _ \<Rightarrow> Some err)"

definition connAfter :: "string option \<Rightarrow> requestMap \<Rightarrow> string option" where
  "connAfter ce m = (if truthy ce then ce else (case firstError m of None \<Rightarrow> ce | Some err \<Rightarrow> Some err))"

text \<open>
  What is emitted for a chain \<open>es\<close> of log entries: the attempt count, the retry flag, the
  attempts numbered from 1 in the order of the chain, each with the time stamp and status of
  its entry and successful exactly for a status in [200, 300), and the response fields of the
  last entry of the chain (an empty reason phrase is shown as \<open>No Response\<close>).
\<close>

definition chain_emitted :: "(int \<Rightarrow> string) \<Rightarrow> StructuredLogEntry list \<Rightarrow> InternalRequest \<Rightarrow> bool" where
  "chain_emitted sn es r \<longleftrightarrow>
     (\<exists>ri as lr.
        retryInfo r = Some ri \<and>
        actualAttempts ri = Some (length es) \<and>
        wasRetried ri = Some (1 < length es) \<and>
        attempts ri = Some as \<and> length as = length es \<and>
        (\<forall>j<length es.
           attemptNumber (as ! j) = j + 1 \<and>
           timestamp (as ! j) = Some (StartTime (es ! j)) \<and>
           statusCode (as ! j) = map_option LogResponse.StatusCode (StructuredLogEntry.Response (es ! j)) \<and>
           (success (as ! j) \<longleftrightarrow>
              (\<exists>rs. StructuredLogEntry.Response (es ! j) = Some rs \<and>
                    200 \<le> LogResponse.StatusCode rs \<and> LogResponse.StatusCode rs < 300))) \<and>
        StructuredLogEntry.Response (last es) = Some lr \<and>
        responseStatus r = Some (LogResponse.StatusCode lr) \<and>
        responseStatusText r = Some (if ReasonPhrase lr = [] then ''No Response'' else ReasonPhrase lr) \<and>
        responseHeaders r = (case LogResponse.Headers lr of None \<Rightarrow> [] | Some h \<Rightarrow> h) \<and>
        responseBody r = LogResponse.Body lr \<and>
        InternalRequest.duration r = Some (sn (Math_round (DurationMs (last es))) @ ''ms''))"

text \<open>
  The names of the requests with a positive directive count, in file order, and the number
  of test cases that the requests before the \<open>i\<close>-th one declare.
\<close>

definition positiveNames :: "HttpFileRequest list \<Rightarrow> string list" where
  "positiveNames reqs = map fileRequestName (filter (\<lambda>req. 0 < directiveCount req) reqs)"

definition offsetOf :: "HttpFileRequest list \<Rightarrow> nat \<Rightarrow> nat" where
  "offsetOf reqs i = sum_list (map directiveCount (take i reqs))"

section \<open>Sample inputs\<close>

text \<open>
  A log entry with a request name, a status code and error strings, and a line parser that
  knows four lines: \<open>a\<close> and \<open>b\<close> are two attempts of request \<open>A\<close> (200, then 500), \<open>e\<close> is
  an attempt of request \<open>B\<close> that succeeded with an error string, \<open>p\<close> is JSON without the
  nested entry; every other line is not JSON.
\<close>

definition sampleEntry :: "string \<Rightarrow> int \<Rightarrow> string list \<Rightarrow> StructuredLogEntry" where
  "sampleEntry nm st errs =
     \<lparr> RequestId = ''id'', StartTime = ''t0'', EndTime = ''t1'', DurationMs = 12,
       StructuredLogEntry.Request = Some \<lparr> LogRequest.Name = nm, LogRequest.Method = ''GET'', Uri = ''http://h/'',
                        LogRequest.Headers = None, LogRequest.FilePath = ''a.http'', LogRequest.Body = None \<rparr>,
       StructuredLogEntry.Response = Some \<lparr> LogResponse.StatusCode = st, ReasonPhrase = ''R'',
                         LogResponse.Headers = None, LogResponse.Body = None \<rparr>,
       Errors = errs, Metadata = None \<rparr>"

definition sampleLine :: "StructuredLogEntry \<Rightarrow> LogEntry" where
  "sampleLine e = \<lparr> Properties = Some \<lparr> RequestLogFileEntry = Some e \<rparr> \<rparr>"

definition sampleParse :: "string \<Rightarrow> LogEntry option" where
  "sampleParse line =
     (if line = ''a'' then Some (sampleLine (sampleEntry ''A'' 200 []))
      else if line = ''b'' then Some (sampleLine (sampleEntry ''A'' 500 []))
      else if line = ''e'' then Some (sampleLine (sampleEntry ''B'' 200 [''ECONNREFUSED'']))
      else if line = ''p'' then Some \<lparr> Properties = None \<rparr>
      else None)"

definition sampleShow :: "int \<Rightarrow> string" where
  "sampleShow n = (if n = 12 then ''12'' else ''0'')"

definition sampleContent :: string where
  "sampleContent = ''a'' @ [CHR 0x0A] @ ''x'' @ [CHR 0x0A] @ ''b'' @ [CHR 0x0A] @ ''e'' @ [CHR 0x0A]"

text \<open>A parsed request with a name and a final status code, and a test with a verdict and a tag.\<close>

definition sampleRequest :: "string \<Rightarrow> int \<Rightarrow> InternalRequest" where
  "sampleRequest nm st =
     \<lparr> InternalRequest.httpMethod = ''GET'', InternalRequest.url = ''http://h/'', requestHeaders = [], responseHeaders = [],
       uniqueKey = None, InternalRequest.title = Some nm, InternalRequest.name = Some nm,
       InternalRequest.templateUrl = None, InternalRequest.requestBody = None,
       responseStatus = Some st, responseStatusText = Some ''R'', responseBody = None,
       InternalRequest.duration = Some ''12ms'', InternalRequest.ErrorMessage = None, retryInfo = None \<rparr>"

definition sampleTest :: "string \<Rightarrow> bool \<Rightarrow> test_source \<Rightarrow> HttpTestResult" where
  "sampleTest nm ok src =
     \<lparr> HttpTestResult.Name = nm, Passed = ok, Message = (if ok then None else Some ''failed''), Source = Some src \<rparr>"

text \<open>A request of the HTTP file with a name and a directive count, a passing test case, a suite.\<close>

definition sampleFileRequest :: "string \<Rightarrow> nat \<Rightarrow> HttpFileRequest" where
  "sampleFileRequest nm c =
     \<lparr> HttpFileRequest.name = Some nm, HttpFileRequest.title = None, HttpFileRequest.httpMethod = ''GET'',
       HttpFileRequest.url = ''http://h/'', HttpFileRequest.templateUrl = None, HttpFileRequest.requestBody = None,
       hasTestDirectives = Some (0 < c), testDirectiveCount = Some c \<rparr>"

definition sampleCase :: "string \<Rightarrow> XmlTestCase" where
  "sampleCase nm = \<lparr> caseName = nm, failureMessage = None \<rparr>"

definition sampleSuite :: "string \<Rightarrow> string list \<Rightarrow> XmlTestSuite" where
  "sampleSuite nm cases = \<lparr> suiteName = nm, testCases = map sampleCase cases \<rparr>"



section \<open>The first pass groups the valid entries by request name\<close>

lemma addEntry_keys:
  "map fst (addEntry k e m) = (if k \<in> set (map fst m) then map fst m else map fst m @ [k])"
proof (induction m)
  case Nil
  show ?case by simp
next
  case (Cons g m)
  obtain k0 f0 es0 where g: "g = (k0, f0, es0)" by (cases g) auto
  show ?case using Cons by (simp add: g)
qed

lemma addEntry_mem:
  "distinct (map fst m) \<Longrightarrow> (k', f, es) \<in> set (addEntry k e m) \<Longrightarrow>
     (k' \<noteq> k \<and> (k', f, es) \<in> set m) \<or>
     (k' = k \<and> ((\<exists>es0. (k, f, es0) \<in> set m \<and> es = es0 @ [e]) \<or>
                (k \<notin> set (map fst m) \<and> f = e \<and> es = [e])))"
proof (induction m)
  case Nil
  then show ?case by simp
next
  case (Cons g m)
  obtain k0 f0 es0 where g: "g = (k0, f0, es0)" by (cases g) auto
  show ?case
  proof (cases "k0 = k")
    case True
    with Cons.prems g have mem: "(k', f, es) = (k, f0, es0 @ [e]) \<or> (k', f, es) \<in> set m"
      by simp
    from Cons.prems(1) g True have notin: "k \<notin> set (map fst m)" by simp
    from mem show ?thesis
    proof
      assume "(k', f, es) = (k, f0, es0 @ [e])"
      then show ?thesis using g True by auto
    next
      assume a: "(k', f, es) \<in> set m"
      then have "k' \<in> set (map fst m)" by force
      with notin have "k' \<noteq> k" by auto
      with a show ?thesis by simp
    qed
  next
    case False
    with Cons.prems g have mem: "(k', f, es) = (k0, f0, es0) \<or> (k', f, es) \<in> set (addEntry k e m)"
      by simp
    from Cons.prems(1) have d: "distinct (map fst m)" by simp
    from mem show ?thesis
    proof
      assume "(k', f, es) = (k0, f0, es0)"
      then show ?thesis using g False by auto
    next
      assume "(k', f, es) \<in> set (addEntry k e m)"
      from Cons.IH[OF d this] show ?thesis using g False by auto
    qed
  qed
qed

lemma foldl_processLine:
  "foldl (processLine JP) (m, b) ls =
     (foldl (\<lambda>m e. addEntry (requestKeyOf e) e m) m (List.map_filter (structuredEntry JP) ls),
      b \<or> List.map_filter (structuredEntry JP) ls \<noteq> [])"
  by (induction ls arbitrary: m b) (auto simp: processLine_def map_filter_simps split: option.splits)

lemma firstPass_groupsOf:
  "firstPass JP ls = (groupsOf (List.map_filter (structuredEntry JP) ls),
                      List.map_filter (structuredEntry JP) ls \<noteq> [])"
  by (simp add: firstPass_def groupsOf_def foldl_processLine)

lemma chains_okD:
  assumes "chains_ok es m"
  shows "distinct (map fst m)" and "set (map fst m) = requestKeyOf ` set es"
    and "(k, f, all) \<in> set m \<Longrightarrow> all = filter (\<lambda>e. requestKeyOf e = k) es \<and> all \<noteq> [] \<and> f = hd all"
  using assms by (simp_all add: chains_ok_def)

lemma chain_push:
  assumes "es0 = filter (\<lambda>x. requestKeyOf x = k) es" "es0 \<noteq> []" "f = hd es0" "requestKeyOf e = k"
  shows "es0 @ [e] = filter (\<lambda>x. requestKeyOf x = k) (es @ [e]) \<and> es0 @ [e] \<noteq> [] \<and> f = hd (es0 @ [e])"
  using assms by simp

lemma chain_other:
  assumes "all = filter (\<lambda>x. requestKeyOf x = k) es" "requestKeyOf e \<noteq> k"
  shows "all = filter (\<lambda>x. requestKeyOf x = k) (es @ [e])"
  using assms by simp

lemma chain_new:
  assumes "requestKeyOf e \<notin> requestKeyOf ` set es"
  shows "[e] = filter (\<lambda>x. requestKeyOf x = requestKeyOf e) (es @ [e])"
proof -
  from assms have "\<forall>x\<in>set es. requestKeyOf x \<noteq> requestKeyOf e"
    by (metis imageI)
  then have "filter (\<lambda>x. requestKeyOf x = requestKeyOf e) es = []"
    by (simp add: filter_empty_conv)
  then show ?thesis by simp
qed

lemma chains_ok_step:
  assumes ok: "chains_ok es m"
  shows "chains_ok (es @ [e]) (addEntry (requestKeyOf e) e m)"
proof -
  let ?k = "requestKeyOf e"
  note d = chains_okD(1)[OF ok] and ks = chains_okD(2)[OF ok]
  have d': "distinct (map fst (addEntry ?k e m))"
    using d by (simp add: addEntry_keys)
  have "set (map fst (addEntry ?k e m)) = insert ?k (set (map fst m))"
    by (simp add: addEntry_keys insert_absorb)
  then have ks': "set (map fst (addEntry ?k e m)) = requestKeyOf ` set (es @ [e])"
    using ks by simp
  have gs': "all = filter (\<lambda>x. requestKeyOf x = k) (es @ [e]) \<and> all \<noteq> [] \<and> f = hd all"
    if mem: "(k, f, all) \<in> set (addEntry ?k e m)" for k f all
  proof -
    from addEntry_mem[OF d mem] consider
      (other) "k \<noteq> ?k" "(k, f, all) \<in> set m"
      | (push) es0 where "k = ?k" "(k, f, es0) \<in> set m" "all = es0 @ [e]"
      | (new) "k = ?k" "?k \<notin> set (map fst m)" "f = e" "all = [e]"
      by blast
    then show ?thesis
    proof cases
      case other
      from chains_okD(3)[OF ok other(2)]
      have h: "all = filter (\<lambda>x. requestKeyOf x = k) es" "all \<noteq> []" "f = hd all" by blast+
      from other(1) have ne: "requestKeyOf e \<noteq> k" by simp
      from chain_other[OF h(1) ne] h(2,3) show ?thesis by simp
    next
      case push
      from chains_okD(3)[OF ok push(2)]
      have h: "es0 = filter (\<lambda>x. requestKeyOf x = k) es" "es0 \<noteq> []" "f = hd es0" by blast+
      show ?thesis unfolding push(3) by (rule chain_push[OF h push(1)[symmetric]])
    next
      case new
      from new(2) ks have "?k \<notin> requestKeyOf ` set es" by simp
      from chain_new[OF this] have "[e] = filter (\<lambda>x. requestKeyOf x = ?k) (es @ [e])" .
      with new(1,3,4) show ?thesis by simp
    qed
  qed
  have gs'': "\<forall>k f all. (k, f, all) \<in> set (addEntry ?k e m) \<longrightarrow>
        all = filter (\<lambda>x. requestKeyOf x = k) (es @ [e]) \<and> all \<noteq> [] \<and> f = hd all"
  proof (intro allI impI)
    fix k f all assume mem: "(k, f, all) \<in> set (addEntry ?k e m)"
    show "all = filter (\<lambda>x. requestKeyOf x = k) (es @ [e]) \<and> all \<noteq> [] \<and> f = hd all"
      by (rule gs'[OF mem])
  qed
  show ?thesis
    unfolding chains_ok_def by (rule conjI[OF d' conjI[OF ks' gs'']])
qed

lemma chains_ok_groupsOf: "chains_ok es (groupsOf es)"
proof (induction es rule: rev_induct)
  case Nil
  show ?case by (simp add: chains_ok_def groupsOf_def)
next
  case (snoc e es)
  then show ?case using chains_ok_step[of es "groupsOf es" e] by (simp add: groupsOf_def)
qed

section \<open>The second pass returns for every grouping of the first pass\<close>

lemma structuredEntry_SomeD:
  "structuredEntry JP l = Some e \<Longrightarrow> StructuredLogEntry.Request e \<noteq> None \<and> StructuredLogEntry.Response e \<noteq> None"
  by (auto simp: structuredEntry_def split: option.splits if_splits)

lemma map_filter_structuredEntry:
  "e \<in> set (List.map_filter (structuredEntry JP) ls) \<Longrightarrow> StructuredLogEntry.Request e \<noteq> None \<and> StructuredLogEntry.Response e \<noteq> None"
  by (auto simp: List.map_filter_def dest: structuredEntry_SomeD)

lemma groupErrors_nonempty: "err \<in> set (groupErrors es) \<Longrightarrow> err \<noteq> []"
  by (simp add: groupErrors_def)

lemma toInternalRequest_Inr:
  "all \<noteq> [] \<Longrightarrow> StructuredLogEntry.Request f = Some frq \<Longrightarrow> toInternalRequest sn f all = Inr (internalRequest sn frq f all)"
  by (cases all) (simp_all add: toInternalRequest_def)

lemma connAfter_Nil: "connAfter ce [] = ce"
  by (simp add: connAfter_def firstError_def)

lemma connAfter_Cons:
  "connAfter (case groupErrors all of [] \<Rightarrow> ce | err # _ \<Rightarrow> if \<not> truthy ce then Some err else ce) m =
   connAfter ce ((k, f, all) # m)"
proof (cases "groupErrors all")
  case Nil
  then show ?thesis by (simp add: connAfter_def firstError_def)
next
  case (Cons err errs)
  then have "err \<noteq> []" using groupErrors_nonempty[of err all] by simp
  then show ?thesis using Cons by (simp add: connAfter_def firstError_def truthy_def)
qed

lemma secondPass_total:
  assumes "\<And>k f all. (k, f, all) \<in> set m \<Longrightarrow> all \<noteq> [] \<and> StructuredLogEntry.Request f \<noteq> None"
  shows "\<exists>rs. secondPass sn m (reqs, ce) = Inr (reqs @ rs, connAfter ce m) \<and>
          list_all2 (\<lambda>g r. \<exists>frq. StructuredLogEntry.Request (fst (snd g)) = Some frq \<and>
                         r = internalRequest sn frq (fst (snd g)) (snd (snd g))) m rs"
  using assms
proof (induction m arbitrary: reqs ce)
  case Nil
  show ?case by (simp add: connAfter_Nil)
next
  case (Cons g m)
  obtain k f all where g: "g = (k, f, all)" by (cases g) auto
  have "(k, f, all) \<in> set (g # m)" by (simp add: g)
  from Cons.prems[OF this] obtain frq where ne: "all \<noteq> []" and frq: "StructuredLogEntry.Request f = Some frq" by auto
  let ?r = "internalRequest sn frq f all"
  let ?ce' = "(case groupErrors all of [] \<Rightarrow> ce | err # _ \<Rightarrow> if \<not> truthy ce then Some err else ce)"
  have step: "secondPass sn (g # m) (reqs, ce) = secondPass sn m (reqs @ [?r], ?ce')"
    unfolding g secondPass.simps toInternalRequest_Inr[OF ne frq] by simp
  have tl: "all \<noteq> [] \<and> StructuredLogEntry.Request f \<noteq> None" if "(k, f, all) \<in> set m" for k f all
    using Cons.prems[of k f all] that by simp
  have "\<exists>rs. secondPass sn m (reqs @ [?r], ?ce') = Inr ((reqs @ [?r]) @ rs, connAfter ?ce' m) \<and>
          list_all2 (\<lambda>g r. \<exists>frq. StructuredLogEntry.Request (fst (snd g)) = Some frq \<and>
                         r = internalRequest sn frq (fst (snd g)) (snd (snd g))) m rs"
    by (rule Cons.IH) (rule tl)
  then obtain rs where
    rs: "secondPass sn m (reqs @ [?r], ?ce') = Inr ((reqs @ [?r]) @ rs, connAfter ?ce' m)"
    and l2: "list_all2 (\<lambda>g r. \<exists>frq. StructuredLogEntry.Request (fst (snd g)) = Some frq \<and>
                         r = internalRequest sn frq (fst (snd g)) (snd (snd g))) m rs"
    by blast
  have a: "secondPass sn (g # m) (reqs, ce) = Inr (reqs @ (?r # rs), connAfter ce (g # m))"
    using trans[OF step rs] unfolding g connAfter_Cons[symmetric] by simp
  have b: "list_all2 (\<lambda>g r. \<exists>frq. StructuredLogEntry.Request (fst (snd g)) = Some frq \<and>
                         r = internalRequest sn frq (fst (snd g)) (snd (snd g))) (g # m) (?r # rs)"
    using l2 frq by (simp add: g)
  from a b show ?case by blast
qed

lemma retryGroups_groupsOf: "retryGroups JP c = groupsOf (validEntries JP c)"
  by (simp add: retryGroups_def validEntries_def firstPass_groupsOf)

lemma retryGroups_ok: "chains_ok (validEntries JP c) (retryGroups JP c)"
  by (simp add: retryGroups_groupsOf chains_ok_groupsOf)

lemma validEntries_complete:
  "e \<in> set (validEntries JP c) \<Longrightarrow> StructuredLogEntry.Request e \<noteq> None \<and> StructuredLogEntry.Response e \<noteq> None"
  unfolding validEntries_def by (rule map_filter_structuredEntry)

lemma retryGroups_member:
  assumes "(k, f, all) \<in> set (retryGroups JP c)"
  shows "all = filter (\<lambda>e. requestKeyOf e = k) (validEntries JP c)" "all \<noteq> []" "f = hd all"
    "StructuredLogEntry.Request f \<noteq> None" "\<forall>e\<in>set all. StructuredLogEntry.Request e \<noteq> None \<and> StructuredLogEntry.Response e \<noteq> None"
proof -
  note h = chains_okD(3)[OF retryGroups_ok assms]
  show a: "all = filter (\<lambda>e. requestKeyOf e = k) (validEntries JP c)" using h by (rule conjunct1)
  show b: "all \<noteq> []" using h by (rule conjunct1[OF conjunct2])
  show c: "f = hd all" using h by (rule conjunct2[OF conjunct2])
  have sub: "set all \<subseteq> set (validEntries JP c)" unfolding a by simp
  show d: "\<forall>e\<in>set all. StructuredLogEntry.Request e \<noteq> None \<and> StructuredLogEntry.Response e \<noteq> None"
    using sub validEntries_complete[of _ JP c] by (meson subsetD)
  from b have "hd all \<in> set all" by simp
  with d c show "StructuredLogEntry.Request f \<noteq> None" by simp
qed

lemma connAfter_None: "connAfter None m = firstError m"
  by (simp add: connAfter_def truthy_def split: option.splits)

lemma ingest_content:
  "\<exists>rs. parseStructuredJsonRequests JP sn (Content c) =
          Inr \<lparr> requests = rs,
                connectionError = (if file_lines c = [] then Some ''Empty JSONL file'' else firstError (retryGroups JP c)),
                foundHttpRequest = (validEntries JP c \<noteq> []) \<rparr> \<and>
        list_all2 (\<lambda>g r. \<exists>frq. StructuredLogEntry.Request (fst (snd g)) = Some frq \<and>
                         r = internalRequest sn frq (fst (snd g)) (snd (snd g))) (retryGroups JP c) rs"
proof (cases "file_lines c = []")
  case True
  then show ?thesis
    by (simp add: parseStructuredJsonRequests_def retryGroups_def validEntries_def firstPass_def)
next
  case False
  have pre: "all \<noteq> [] \<and> StructuredLogEntry.Request f \<noteq> None" if "(k, f, all) \<in> set (retryGroups JP c)" for k f all
    using retryGroups_member(2,4)[OF that] by simp
  have "\<exists>rs. secondPass sn (retryGroups JP c) ([], None) = Inr ([] @ rs, connAfter None (retryGroups JP c)) \<and>
        list_all2 (\<lambda>g r. \<exists>frq. StructuredLogEntry.Request (fst (snd g)) = Some frq \<and>
                         r = internalRequest sn frq (fst (snd g)) (snd (snd g))) (retryGroups JP c) rs"
    by (rule secondPass_total) (rule pre)
  then obtain rs where sp: "secondPass sn (retryGroups JP c) ([], None) = Inr ([] @ rs, connAfter None (retryGroups JP c))"
    and l2: "list_all2 (\<lambda>g r. \<exists>frq. StructuredLogEntry.Request (fst (snd g)) = Some frq \<and>
                         r = internalRequest sn frq (fst (snd g)) (snd (snd g))) (retryGroups JP c) rs"
    by blast
  have fp: "firstPass JP (file_lines c) = (retryGroups JP c, validEntries JP c \<noteq> [])"
    by (simp add: retryGroups_def validEntries_def firstPass_groupsOf)
  have "parseStructuredJsonRequests JP sn (Content c) =
          Inr \<lparr> requests = rs, connectionError = firstError (retryGroups JP c),
                foundHttpRequest = (validEntries JP c \<noteq> []) \<rparr>"
    using False by (simp add: parseStructuredJsonRequests_def fp sp connAfter_None)
  with l2 False show ?thesis by auto
qed

section \<open>Missing and empty log files\<close>

lemma blank_file_lines: "\<forall>ch\<in>set c. is_ws ch \<Longrightarrow> file_lines c = []"
proof -
  assume a: "\<forall>ch\<in>set c. is_ws ch"
  then have d: "dropWhile is_ws c = []" by (simp add: dropWhile_eq_Nil_conv)
  have "trim c = []" unfolding trim_def d by simp
  moreover have "trim [] = []" by (simp add: trim_def)
  ultimately show ?thesis by (simp add: file_lines_def)
qed

lemma createFailedResult_shape:
  "\<exists>g r. createFailedResult bn filePath msg = [g] \<and> Requests g = [r] \<and>
         HttpRequestGroup.Status g = ''Failed'' \<and> HttpRequestResult.Status r = ''Failed'' \<and>
         HttpRequestResult.ErrorMessage r = Some msg"
  by (simp add: createFailedResult_def STATUS_FAILED_def)

text \<open>
  Claim C7. For a missing log file, and for one whose content is empty or only white space,
  ingestion returns no requests, a descriptive \<open>connectionError\<close> and
  \<open>foundHttpRequest = false\<close>; \<open>parseOutput\<close> then returns the single failed request
  with the message that no HTTP requests were found.
\<close>

theorem missing_or_empty_log_fails_softly:
  assumes "f = Missing \<or> (\<exists>c. f = Content c \<and> (\<forall>ch\<in>set c. is_ws ch))"
  shows "\<exists>msg g r.
           parseStructuredJsonRequests JP sn f =
             Inr \<lparr> requests = [], connectionError = Some msg, foundHttpRequest = False \<rparr> \<and>
           msg \<noteq> [] \<and>
           parseOutput bn sn pInt JP tests filePath f = [g] \<and> Requests g = [r] \<and>
           HttpRequestGroup.Status g = ''Failed'' \<and> HttpRequestResult.Status r = ''Failed'' \<and>
           HttpRequestResult.ErrorMessage r = Some ''No HTTP requests found in structured JSON files''"
proof -
  from assms have "\<exists>msg. parseStructuredJsonRequests JP sn f =
             Inr \<lparr> requests = [], connectionError = Some msg, foundHttpRequest = False \<rparr> \<and> msg \<noteq> []"
  proof
    assume "f = Missing"
    then show ?thesis by (simp add: parseStructuredJsonRequests_def)
  next
    assume "\<exists>c. f = Content c \<and> (\<forall>ch\<in>set c. is_ws ch)"
    then obtain c where "f = Content c" "file_lines c = []" using blank_file_lines by blast
    then show ?thesis by (simp add: parseStructuredJsonRequests_def)
  qed
  then obtain msg where p: "parseStructuredJsonRequests JP sn f =
             Inr \<lparr> requests = [], connectionError = Some msg, foundHttpRequest = False \<rparr>" and m: "msg \<noteq> []"
    by blast
  have "parseOutput bn sn pInt JP tests filePath f =
          createFailedResult bn filePath ''No HTTP requests found in structured JSON files''"
    by (simp add: parseOutput_def p)
  with createFailedResult_shape[of bn filePath "''No HTTP requests found in structured JSON files''"] p m
  show ?thesis by auto
qed

theorem missing_or_empty_log_fails_softly_witness:
  "\<exists>msg g r.
     parseStructuredJsonRequests (\<lambda>l. None) (\<lambda>n. []) (Content []) =
       Inr \<lparr> requests = [], connectionError = Some msg, foundHttpRequest = False \<rparr> \<and>
     msg \<noteq> [] \<and>
     parseOutput id (\<lambda>n. []) (\<lambda>s. None) (\<lambda>l. None) Map.empty ''a.http'' (Content []) = [g] \<and> Requests g = [r] \<and>
     HttpRequestGroup.Status g = ''Failed'' \<and> HttpRequestResult.Status r = ''Failed'' \<and>
     HttpRequestResult.ErrorMessage r = Some ''No HTTP requests found in structured JSON files''"
  using missing_or_empty_log_fails_softly[of "Content []" "\<lambda>l. None" "\<lambda>n. []" id "\<lambda>s. None" Map.empty "''a.http''"]
  by simp

section \<open>Malformed lines\<close>

lemma spec_skipped_structuredEntry: "spec_skipped JP l \<Longrightarrow> structuredEntry JP l = None"
  by (auto simp: spec_skipped_def structuredEntry_def split: option.splits)

lemma map_filter_drop_None:
  "(\<And>x. \<not> P x \<Longrightarrow> f x = None) \<Longrightarrow> List.map_filter f (filter P xs) = List.map_filter f xs"
  by (induction xs) (auto simp: map_filter_simps split: option.splits)

text \<open>
  Claim C8. The first pass over the lines equals the first pass over the lines that are not
  skipped: a line that is not JSON, lacks the nested structured entry, or whose entry has
  neither Request nor Response leaves the state as it is, and the lines before and after it
  are processed as if it were absent. Ingestion of a file content always returns normally.
\<close>

theorem malformed_lines_are_skipped:
  "firstPass JP ls = firstPass JP (filter (\<lambda>l. \<not> spec_skipped JP l) ls) \<and>
   (spec_skipped JP l \<longrightarrow>
      processLine JP st l = st \<and>
      firstPass JP (before @ l # after) = firstPass JP (before @ after)) \<and>
   (\<exists>res. parseStructuredJsonRequests JP sn (Content c) = Inr res)"
proof (intro conjI impI)
  have "List.map_filter (structuredEntry JP) (filter (\<lambda>l. \<not> spec_skipped JP l) ls) =
        List.map_filter (structuredEntry JP) ls"
    by (rule map_filter_drop_None) (simp add: spec_skipped_structuredEntry)
  then show "firstPass JP ls = firstPass JP (filter (\<lambda>l. \<not> spec_skipped JP l) ls)"
    by (simp add: firstPass_groupsOf)
next
  assume "spec_skipped JP l"
  then have n: "structuredEntry JP l = None" by (rule spec_skipped_structuredEntry)
  then show "processLine JP st l = st" by (simp add: processLine_def)
  from n have "List.map_filter (structuredEntry JP) (before @ l # after) =
               List.map_filter (structuredEntry JP) (before @ after)"
    by (simp add: List.map_filter_def)
  then show "firstPass JP (before @ l # after) = firstPass JP (before @ after)"
    by (simp add: firstPass_groupsOf)
next
  from ingest_content[of JP sn c]
  show "\<exists>res. parseStructuredJsonRequests JP sn (Content c) = Inr res" by blast
qed

theorem malformed_lines_are_skipped_witness:
  "spec_skipped sampleParse ''x'' \<and> spec_skipped sampleParse ''p'' \<and>
   firstPass sampleParse ([''a''] @ ''x'' # [''b'']) = firstPass sampleParse ([''a''] @ [''b'']) \<and>
   firstPass sampleParse ([''a''] @ ''p'' # [''b'']) = firstPass sampleParse ([''a''] @ [''b''])"
proof -
  have x: "spec_skipped sampleParse ''x''" and p: "spec_skipped sampleParse ''p''"
    by (simp_all add: spec_skipped_def sampleParse_def)
  from malformed_lines_are_skipped[of sampleParse "[]" "''x''" "([], False)" "[''a'']" "[''b'']" sampleShow "[]"] x
  have 1: "firstPass sampleParse ([''a''] @ ''x'' # [''b'']) = firstPass sampleParse ([''a''] @ [''b''])"
    by blast
  from malformed_lines_are_skipped[of sampleParse "[]" "''p''" "([], False)" "[''a'']" "[''b'']" sampleShow "[]"] p
  have 2: "firstPass sampleParse ([''a''] @ ''p'' # [''b'']) = firstPass sampleParse ([''a''] @ [''b''])"
    by blast
  from x p 1 2 show ?thesis by blast
qed

section \<open>Retry chains\<close>

lemma sample_lines: "file_lines sampleContent = [''a'', ''x'', ''b'', ''e'']"
  by (simp add: sampleContent_def file_lines_def trim_def is_ws_def)

lemma sample_groups:
  "retryGroups sampleParse sampleContent =
     [(''A'', sampleEntry ''A'' 200 [], [sampleEntry ''A'' 200 [], sampleEntry ''A'' 500 []]),
      (''B'', sampleEntry ''B'' 200 [''ECONNREFUSED''], [sampleEntry ''B'' 200 [''ECONNREFUSED'']])]"
proof -
  have s: "structuredEntry sampleParse ''a'' = Some (sampleEntry ''A'' 200 [])"
     "structuredEntry sampleParse ''x'' = None"
     "structuredEntry sampleParse ''b'' = Some (sampleEntry ''A'' 500 [])"
     "structuredEntry sampleParse ''e'' = Some (sampleEntry ''B'' 200 [''ECONNREFUSED''])"
    by (simp_all add: structuredEntry_def sampleParse_def sampleLine_def sampleEntry_def)
  have k: "requestKeyOf (sampleEntry nm st errs) = nm" for nm st errs
    by (simp add: requestKeyOf_def sampleEntry_def)
  show ?thesis
    by (simp add: retryGroups_def sample_lines firstPass_def processLine_def s k)
qed

lemma attempts_nth:
  "j < length es \<Longrightarrow>
   map (\<lambda>(index, entry). retryAttempt sn index entry) (enumerate 0 es) ! j = retryAttempt sn j (es ! j)"
  by (simp add: nth_enumerate_eq)

lemma attemptSuccess_iff:
  "attemptSuccess e \<longleftrightarrow>
     (\<exists>rs. StructuredLogEntry.Response e = Some rs \<and> 200 \<le> LogResponse.StatusCode rs \<and> LogResponse.StatusCode rs < 300)"
  by (auto simp: attemptSuccess_def split: option.splits)

lemma internalRequest_name:
  "InternalRequest.name (internalRequest sn frq f es) = Some (LogRequest.Name frq)"
  by (simp add: internalRequest_def Let_def)

lemma internalRequest_retryInfo:
  "retryInfo (internalRequest sn frq f es) =
     Some \<lparr> strategyName = (if (case Metadata f of None \<Rightarrow> False | Some md \<Rightarrow> hasResiliencePipeline md = Some True)
                              then Some ''Resilience Pipeline'' else None),
            maxAttempts = None, actualAttempts = Some (length es), backoffType = None,
            wasRetried = Some (1 < length es),
            attempts = Some (map (\<lambda>(index, entry). retryAttempt sn index entry) (enumerate 0 es)) \<rparr>"
  by (simp add: internalRequest_def Let_def)

lemma internalRequest_response:
  assumes "StructuredLogEntry.Response (last es) = Some lr"
  shows "responseStatus (internalRequest sn frq f es) = Some (LogResponse.StatusCode lr)"
    and "responseStatusText (internalRequest sn frq f es) =
           Some (if ReasonPhrase lr = [] then ''No Response'' else ReasonPhrase lr)"
    and "responseHeaders (internalRequest sn frq f es) =
           (case LogResponse.Headers lr of None \<Rightarrow> [] | Some h \<Rightarrow> h)"
    and "responseBody (internalRequest sn frq f es) = LogResponse.Body lr"
    and "InternalRequest.duration (internalRequest sn frq f es) =
           Some (sn (Math_round (DurationMs (last es))) @ ''ms'')"
  using assms by (simp_all add: internalRequest_def Let_def or_else_def)

lemma retryAttempt_fields:
  "attemptNumber (retryAttempt sn j e) = j + 1"
  "timestamp (retryAttempt sn j e) = Some (StartTime e)"
  "statusCode (retryAttempt sn j e) = map_option LogResponse.StatusCode (StructuredLogEntry.Response e)"
  "success (retryAttempt sn j e) = attemptSuccess e"
  by (simp_all add: retryAttempt_def)

lemma internalRequest_chain_emitted:
  assumes lr: "StructuredLogEntry.Response (last es) = Some lr"
  shows "chain_emitted sn es (internalRequest sn frq f es)"
proof -
  let ?r = "internalRequest sn frq f es"
  let ?as = "map (\<lambda>(index, entry). retryAttempt sn index entry) (enumerate 0 es)"
  let ?ri = "\<lparr> strategyName = (if (case Metadata f of None \<Rightarrow> False | Some md \<Rightarrow> hasResiliencePipeline md = Some True)
                              then Some ''Resilience Pipeline'' else None),
            maxAttempts = None, actualAttempts = Some (length es), backoffType = None,
            wasRetried = Some (1 < length es),
            attempts = Some ?as \<rparr>"
  have att: "\<forall>j<length es.
           attemptNumber (?as ! j) = j + 1 \<and>
           timestamp (?as ! j) = Some (StartTime (es ! j)) \<and>
           statusCode (?as ! j) = map_option LogResponse.StatusCode (StructuredLogEntry.Response (es ! j)) \<and>
           (success (?as ! j) \<longleftrightarrow>
              (\<exists>rs. StructuredLogEntry.Response (es ! j) = Some rs \<and>
                    200 \<le> LogResponse.StatusCode rs \<and> LogResponse.StatusCode rs < 300))"
  proof (intro allI impI)
    fix j assume "j < length es"
    then have e: "?as ! j = retryAttempt sn j (es ! j)" by (rule attempts_nth)
    show "attemptNumber (?as ! j) = j + 1 \<and>
           timestamp (?as ! j) = Some (StartTime (es ! j)) \<and>
           statusCode (?as ! j) = map_option LogResponse.StatusCode (StructuredLogEntry.Response (es ! j)) \<and>
           (success (?as ! j) \<longleftrightarrow>
              (\<exists>rs. StructuredLogEntry.Response (es ! j) = Some rs \<and>
                    200 \<le> LogResponse.StatusCode rs \<and> LogResponse.StatusCode rs < 300))"
      unfolding e by (simp add: retryAttempt_fields attemptSuccess_iff)
  qed
  have la: "length ?as = length es" by simp
  have f5: "retryInfo ?r = Some ?ri" by (rule internalRequest_retryInfo)
  have f6: "actualAttempts ?ri = Some (length es)" by simp
  have f7: "wasRetried ?ri = Some (1 < length es)" by simp
  have f8: "attempts ?ri = Some ?as" by simp
  note resp = internalRequest_response[OF lr, of sn frq f]
  show ?thesis
    unfolding chain_emitted_def
    apply (rule exI[of _ ?ri], rule exI[of _ ?as], rule exI[of _ lr])
    by (intro conjI) (fact f5 f6 f7 f8 la att lr resp)+
qed

text \<open>
  Claim C3. Ingestion of a file content emits one request per retry group, in the order of
  the groups. The group of a name holds the valid entries of that name in line order, and
  its request has \<open>actualAttempts\<close> equal to their number \<open>N\<close>, \<open>wasRetried\<close> true exactly
  when \<open>N > 1\<close>, the attempts numbered \<open>1..N\<close> in that order with \<open>success\<close> exactly for a
  status in [200, 300), and the response status, text, headers, body and duration of the
  last entry, whatever the earlier attempts returned.
\<close>

theorem retry_chain_emits_last_attempt:
  "\<exists>res. parseStructuredJsonRequests JP sn (Content c) = Inr res \<and>
     length (requests res) = length (retryGroups JP c) \<and>
     distinct (map fst (retryGroups JP c)) \<and>
     set (map fst (retryGroups JP c)) = requestKeyOf ` set (validEntries JP c) \<and>
     (\<forall>i<length (retryGroups JP c). \<exists>k f es.
        retryGroups JP c ! i = (k, f, es) \<and>
        es = filter (\<lambda>e. requestKeyOf e = k) (validEntries JP c) \<and> es \<noteq> [] \<and>
        InternalRequest.name (requests res ! i) = Some k \<and>
        chain_emitted sn es (requests res ! i))"
proof -
  let ?G = "retryGroups JP c"
  from ingest_content[of JP sn c] obtain rs res where
    p: "parseStructuredJsonRequests JP sn (Content c) = Inr res" and rq: "requests res = rs"
    and l2: "list_all2 (\<lambda>g r. \<exists>frq. StructuredLogEntry.Request (fst (snd g)) = Some frq \<and>
                         r = internalRequest sn frq (fst (snd g)) (snd (snd g))) ?G rs"
    by force
  from l2 have len: "length rs = length ?G" by (simp add: list_all2_lengthD)
  note ok = retryGroups_ok[of JP c]
  have chains: "\<forall>i<length ?G. \<exists>k f es.
        ?G ! i = (k, f, es) \<and>
        es = filter (\<lambda>e. requestKeyOf e = k) (validEntries JP c) \<and> es \<noteq> [] \<and>
        InternalRequest.name (requests res ! i) = Some k \<and>
        chain_emitted sn es (requests res ! i)"
  proof (intro allI impI)
    fix i assume i: "i < length ?G"
    obtain k f es where g: "?G ! i = (k, f, es)" by (cases "?G ! i") auto
    from i g have mem: "(k, f, es) \<in> set ?G" by (metis nth_mem)
    note m = retryGroups_member[OF mem]
    from list_all2_nthD[OF l2 i] g obtain frq where frq: "StructuredLogEntry.Request f = Some frq"
      and r: "requests res ! i = internalRequest sn frq f es" unfolding rq by auto
    from m(2) m(3) have "f \<in> set es" by simp
    with m(1) have "requestKeyOf f = k" by simp
    with frq have nm: "LogRequest.Name frq = k" by (simp add: requestKeyOf_def)
    from m(2) have "last es \<in> set es" by simp
    with m(5) obtain lr where lr: "StructuredLogEntry.Response (last es) = Some lr" by auto
    have f4: "InternalRequest.name (requests res ! i) = Some k" unfolding r internalRequest_name nm ..
    have f5: "chain_emitted sn es (requests res ! i)" unfolding r by (rule internalRequest_chain_emitted[OF lr])
    show "\<exists>k f es.
        ?G ! i = (k, f, es) \<and>
        es = filter (\<lambda>e. requestKeyOf e = k) (validEntries JP c) \<and> es \<noteq> [] \<and>
        InternalRequest.name (requests res ! i) = Some k \<and>
        chain_emitted sn es (requests res ! i)"
      apply (rule exI[of _ k], rule exI[of _ f], rule exI[of _ es])
      by (intro conjI) (fact g m(1) m(2) f4 f5)+
  qed
  have d: "distinct (map fst ?G)" by (rule chains_okD(1)[OF ok])
  have ks: "set (map fst ?G) = requestKeyOf ` set (validEntries JP c)" by (rule chains_okD(2)[OF ok])
  have len': "length (requests res) = length ?G" unfolding rq by (rule len)
  show ?thesis
    apply (rule exI[of _ res])
    by (intro conjI) (fact p len' d ks chains)+
qed

theorem retry_chain_emits_last_attempt_witness:
  "\<exists>res ri. parseStructuredJsonRequests sampleParse sampleShow (Content sampleContent) = Inr res \<and>
     length (requests res) = 2 \<and>
     InternalRequest.name (requests res ! 0) = Some ''A'' \<and>
     retryInfo (requests res ! 0) = Some ri \<and>
     actualAttempts ri = Some 2 \<and> wasRetried ri = Some True \<and>
     responseStatus (requests res ! 0) = Some 500"
proof -
  from retry_chain_emits_last_attempt[of sampleParse sampleShow sampleContent] obtain res where
    p: "parseStructuredJsonRequests sampleParse sampleShow (Content sampleContent) = Inr res"
    and len: "length (requests res) = length (retryGroups sampleParse sampleContent)"
    and ch: "\<forall>i<length (retryGroups sampleParse sampleContent). \<exists>k f es.
        retryGroups sampleParse sampleContent ! i = (k, f, es) \<and>
        es = filter (\<lambda>e. requestKeyOf e = k) (validEntries sampleParse sampleContent) \<and> es \<noteq> [] \<and>
        InternalRequest.name (requests res ! i) = Some k \<and>
        chain_emitted sampleShow es (requests res ! i)"
    by (elim exE conjE)
  have "0 < length (retryGroups sampleParse sampleContent)" by (simp add: sample_groups)
  with ch obtain k f es where g: "retryGroups sampleParse sampleContent ! 0 = (k, f, es)"
    and nm: "InternalRequest.name (requests res ! 0) = Some k"
    and ce: "chain_emitted sampleShow es (requests res ! 0)" by blast
  from g have k: "k = ''A''" and es: "es = [sampleEntry ''A'' 200 [], sampleEntry ''A'' 500 []]"
    by (auto simp: sample_groups)
  from ce obtain ri lr where "retryInfo (requests res ! 0) = Some ri"
    "actualAttempts ri = Some (length es)" "wasRetried ri = Some (1 < length es)"
    "StructuredLogEntry.Response (last es) = Some lr"
    "responseStatus (requests res ! 0) = Some (LogResponse.StatusCode lr)"
    unfolding chain_emitted_def by blast
  then have "retryInfo (requests res ! 0) = Some ri \<and> actualAttempts ri = Some 2 \<and>
     wasRetried ri = Some True \<and> responseStatus (requests res ! 0) = Some 500"
    by (auto simp: es sampleEntry_def)
  with p len nm k show ?thesis by (auto simp: sample_groups)
qed

section \<open>Error strings of log entries\<close>

lemma firstError_Some:
  assumes "(k, f, all) \<in> set m" "e \<in> set all" "err \<in> set (Errors e)" "err \<noteq> []"
  shows "\<exists>err'. firstError m = Some err' \<and> err' \<noteq> []"
proof -
  from assms(2-4) have "err \<in> set (groupErrors all)" by (auto simp: groupErrors_def)
  with assms(1) have mem: "err \<in> set (concat (map (\<lambda>(k, f, all). groupErrors all) m))" by force
  then obtain err' rest where c: "concat (map (\<lambda>(k, f, all). groupErrors all) m) = err' # rest"
    by (cases "concat (map (\<lambda>(k, f, all). groupErrors all) m)") auto
  then have "err' \<in> set (concat (map (\<lambda>(k, f, all). groupErrors all) m))" by simp
  then have "err' \<noteq> []" using groupErrors_nonempty by auto
  with c show ?thesis by (simp add: firstError_def)
qed

lemma retryGroups_file_lines: "retryGroups JP c \<noteq> [] \<Longrightarrow> file_lines c \<noteq> []"
  by (auto simp: retryGroups_def firstPass_def)

text \<open>
  Claim C10. If some entry of some retry group carries a non-empty error string, ingestion
  sets \<open>connectionError\<close> to the first such string in the order of the groups, and
  \<open>parseOutput\<close> returns only the single failed request carrying it: the parsed requests
  are dropped, whatever their status codes.
\<close>

theorem entry_error_replaces_all_requests:
  assumes "\<exists>g\<in>set (retryGroups JP c). \<exists>e\<in>set (snd (snd g)). \<exists>err\<in>set (Errors e). err \<noteq> []"
  shows "\<exists>res err grp r.
           parseStructuredJsonRequests JP sn (Content c) = Inr res \<and>
           length (requests res) = length (retryGroups JP c) \<and> requests res \<noteq> [] \<and>
           firstError (retryGroups JP c) = Some err \<and> err \<noteq> [] \<and>
           connectionError res = Some err \<and>
           parseOutput bn sn pInt JP tests filePath (Content c) = [grp] \<and> Requests grp = [r] \<and>
           HttpRequestGroup.Status grp = ''Failed'' \<and> HttpRequestResult.Status r = ''Failed'' \<and>
           HttpRequestResult.ErrorMessage r = Some err"
proof -
  from assms obtain k f all e err0 where g: "(k, f, all) \<in> set (retryGroups JP c)"
    and e: "e \<in> set all" "err0 \<in> set (Errors e)" "err0 \<noteq> []" by force
  from firstError_Some[OF g e] obtain err where fe: "firstError (retryGroups JP c) = Some err" and ne: "err \<noteq> []"
    by blast
  from g have gne: "retryGroups JP c \<noteq> []" by auto
  then have fl: "file_lines c \<noteq> []" by (rule retryGroups_file_lines)
  from ingest_content[of JP sn c] fl obtain rs where
    p: "parseStructuredJsonRequests JP sn (Content c) =
          Inr \<lparr> requests = rs, connectionError = firstError (retryGroups JP c),
                foundHttpRequest = (validEntries JP c \<noteq> []) \<rparr>"
    and l2: "list_all2 (\<lambda>g r. \<exists>frq. StructuredLogEntry.Request (fst (snd g)) = Some frq \<and>
                         r = internalRequest sn frq (fst (snd g)) (snd (snd g))) (retryGroups JP c) rs"
    by auto
  from l2 have len: "length rs = length (retryGroups JP c)" by (simp add: list_all2_lengthD)
  with gne have rne: "rs \<noteq> []" by auto
  have po: "parseOutput bn sn pInt JP tests filePath (Content c) = createFailedResult bn filePath err"
    using rne ne by (simp add: parseOutput_def p fe buildHttpRequestResults_def truthy_def)
  from createFailedResult_shape[of bn filePath err] obtain grp r where
    "createFailedResult bn filePath err = [grp]" "Requests grp = [r]"
    "HttpRequestGroup.Status grp = ''Failed''" "HttpRequestResult.Status r = ''Failed''"
    "HttpRequestResult.ErrorMessage r = Some err" by blast
  with p len rne fe ne po show ?thesis by auto
qed

theorem entry_error_replaces_all_requests_witness:
  "\<exists>res grp r.
     parseStructuredJsonRequests sampleParse sampleShow (Content sampleContent) = Inr res \<and>
     length (requests res) = 2 \<and>
     connectionError res = Some ''ECONNREFUSED'' \<and>
     parseOutput id sampleShow (\<lambda>s. None) sampleParse Map.empty ''f.http'' (Content sampleContent) = [grp] \<and>
     Requests grp = [r] \<and> HttpRequestResult.Status r = ''Failed'' \<and>
     HttpRequestResult.ErrorMessage r = Some ''ECONNREFUSED''"
proof -
  have hyp: "\<exists>g\<in>set (retryGroups sampleParse sampleContent). \<exists>e\<in>set (snd (snd g)).
               \<exists>err\<in>set (Errors e). err \<noteq> []"
    by (simp add: sample_groups sampleEntry_def)
  have fe: "firstError (retryGroups sampleParse sampleContent) = Some ''ECONNREFUSED''"
    by (simp add: sample_groups firstError_def groupErrors_def sampleEntry_def)
  from entry_error_replaces_all_requests[OF hyp, of sampleShow id "\<lambda>s. None" Map.empty "''f.http''"]
  show ?thesis by (auto simp: fe[unfolded sample_groups] sample_groups)
qed

section \<open>Status of a request and of the group\<close>

lemma requestResult_status:
  "HttpRequestResult.Status (requestResult sn tests i req) =
     (if \<not> httpSuccess req then STATUS_FAILED
      else if hasFailedInlineTests
                (case tests (or_else (InternalRequest.name req) (''Request '' @ sn (int i + 1))) of
                   None \<Rightarrow> [] | Some ts \<Rightarrow> ts)
      then STATUS_TESTS_FAILED else STATUS_PASSED)"
  by (simp add: requestResult_def Let_def)

lemma httpSuccess_iff:
  "httpSuccess req \<longleftrightarrow> (\<exists>st. responseStatus req = Some st \<and> 200 \<le> st \<and> st < 300)"
  by (auto simp: httpSuccess_def split: option.splits)

lemma hasFailedInlineTests_iff:
  "hasFailedInlineTests ts \<longleftrightarrow> (\<exists>t\<in>set ts. (Source t = Some inline \<or> Source t = None) \<and> \<not> Passed t)"
  by (auto simp: hasFailedInlineTests_def inlineTestsOf_def list_ex_iff filter_empty_conv)

lemma build_requests:
  assumes "\<not> truthy (connectionError sr)"
  shows "\<exists>g. buildHttpRequestResults bn sn pInt fileName filePath sr tests = [g] \<and>
           Requests g = map (\<lambda>(index, request). requestResult sn tests index request)
                            (enumerate 0 (requests sr)) @ customCsxResult tests \<and>
           HttpRequestGroup.Status g = groupStatus (Requests g)"
  using assms by (simp add: buildHttpRequestResults_def Let_def)

lemma build_requests_nth:
  assumes "i < length (requests sr)"
  shows "(map (\<lambda>(index, request). requestResult sn tests index request)
              (enumerate 0 (requests sr)) @ customCsxResult tests) ! i =
         requestResult sn tests i (requests sr ! i)"
  using assms by (simp add: nth_append nth_enumerate_eq)

text \<open>
  Claim C2. Without a connection error, the status of the \<open>i\<close>-th request of the group is
  \<open>Failed\<close> if the final status code is not in [200, 300); otherwise \<open>TestsFailed\<close> if one of
  its tests that is tagged inline (or has no tag) did not pass; otherwise \<open>Passed\<close>. The
  tests are those stored under the request's name.
\<close>

theorem request_status_precedence:
  assumes "\<not> truthy (connectionError sr)" and "i < length (requests sr)"
  shows "\<exists>g. buildHttpRequestResults bn sn pInt fileName filePath sr tests = [g] \<and>
           i < length (Requests g) \<and>
           HttpRequestResult.Status (Requests g ! i) =
             (if \<not> (\<exists>st. responseStatus (requests sr ! i) = Some st \<and> 200 \<le> st \<and> st < 300)
              then ''Failed''
              else if (\<exists>t\<in>set (case tests (or_else (InternalRequest.name (requests sr ! i))
                                              (''Request '' @ sn (int i + 1))) of
                                    None \<Rightarrow> [] | Some ts \<Rightarrow> ts).
                         (Source t = Some inline \<or> Source t = None) \<and> \<not> Passed t)
              then ''TestsFailed''
              else ''Passed'')"
proof -
  from build_requests[OF assms(1), of bn sn pInt fileName filePath tests] obtain g where
    g: "buildHttpRequestResults bn sn pInt fileName filePath sr tests = [g]"
    and rq: "Requests g = map (\<lambda>(index, request). requestResult sn tests index request)
                            (enumerate 0 (requests sr)) @ customCsxResult tests"
    by blast
  have len: "i < length (Requests g)" unfolding rq using assms(2) by simp
  have nth: "Requests g ! i = requestResult sn tests i (requests sr ! i)"
    unfolding rq by (rule build_requests_nth[OF assms(2)])
  have st: "HttpRequestResult.Status (Requests g ! i) =
             (if \<not> (\<exists>st. responseStatus (requests sr ! i) = Some st \<and> 200 \<le> st \<and> st < 300)
              then ''Failed''
              else if (\<exists>t\<in>set (case tests (or_else (InternalRequest.name (requests sr ! i))
                                              (''Request '' @ sn (int i + 1))) of
                                    None \<Rightarrow> [] | Some ts \<Rightarrow> ts).
                         (Source t = Some inline \<or> Source t = None) \<and> \<not> Passed t)
              then ''TestsFailed''
              else ''Passed'')"
    unfolding nth requestResult_status httpSuccess_iff hasFailedInlineTests_iff
      STATUS_FAILED_def STATUS_TESTS_FAILED_def STATUS_PASSED_def ..
  from g len st show ?thesis by blast
qed

theorem request_status_precedence_witness:
  "\<exists>g. buildHttpRequestResults id sampleShow (\<lambda>s. None) ''f'' ''f.http''
          \<lparr> requests = [sampleRequest ''A'' 500, sampleRequest ''B'' 200, sampleRequest ''C'' 200],
            connectionError = None, foundHttpRequest = True \<rparr>
          [''A'' \<mapsto> [sampleTest ''t1'' True inline],
           ''B'' \<mapsto> [sampleTest ''t2'' True inline, sampleTest ''t3'' False inline],
           ''C'' \<mapsto> [sampleTest ''t4'' True inline]] = [g] \<and>
       HttpRequestResult.Status (Requests g ! 0) = ''Failed'' \<and>
       HttpRequestResult.Status (Requests g ! 1) = ''TestsFailed'' \<and>
       HttpRequestResult.Status (Requests g ! 2) = ''Passed''"
proof -
  let ?sr = "\<lparr> requests = [sampleRequest ''A'' 500, sampleRequest ''B'' 200, sampleRequest ''C'' 200],
            connectionError = None, foundHttpRequest = True \<rparr>"
  let ?tests = "[''A'' \<mapsto> [sampleTest ''t1'' True inline],
           ''B'' \<mapsto> [sampleTest ''t2'' True inline, sampleTest ''t3'' False inline],
           ''C'' \<mapsto> [sampleTest ''t4'' True inline]]"
  have nt: "\<not> truthy (connectionError ?sr)" by (simp add: truthy_def)
  have l0: "0 < length (requests ?sr)" and l1: "1 < length (requests ?sr)" and l2: "2 < length (requests ?sr)"
    by simp_all
  note t0 = request_status_precedence[OF nt l0, of id sampleShow "\<lambda>s. None" "''f''" "''f.http''" ?tests]
  note t1 = request_status_precedence[OF nt l1, of id sampleShow "\<lambda>s. None" "''f''" "''f.http''" ?tests]
  note t2 = request_status_precedence[OF nt l2, of id sampleShow "\<lambda>s. None" "''f''" "''f.http''" ?tests]
  from build_requests[OF nt, of id sampleShow "\<lambda>s. None" "''f''" "''f.http''" ?tests] obtain g where
    g: "buildHttpRequestResults id sampleShow (\<lambda>s. None) ''f'' ''f.http'' ?sr ?tests = [g]"
    and rq: "length (Requests g) = 3"
    by (auto simp: customCsxResult_def)
  from t0 g have s0: "HttpRequestResult.Status (Requests g ! 0) = ''Failed''"
    by (simp add: sampleRequest_def)
  from t1 g have s1: "HttpRequestResult.Status (Requests g ! 1) = ''TestsFailed''"
    by (simp add: sampleRequest_def sampleTest_def or_else_def)
  from t2 g have s2: "HttpRequestResult.Status (Requests g ! 2) = ''Passed''"
    by (simp add: sampleRequest_def sampleTest_def or_else_def)
  from g s0 s1 s2 show ?thesis by blast
qed

text \<open>
  Claim C1, evaluated on one request with status code 500: the request's status is
  \<open>Failed\<close>, and the group's status is \<open>PASSED\<close>, since the group compares the statuses
  with the literal \<open>FAILED\<close>.
\<close>

theorem group_status_misses_failed_request:
  "map HttpRequestGroup.Status
     (buildHttpRequestResults id sampleShow Map.empty ''f'' ''f.http''
        \<lparr> requests = [sampleRequest ''A'' 500], connectionError = None, foundHttpRequest = True \<rparr>
        Map.empty) = [''PASSED''] \<and>
   map (map HttpRequestResult.Status \<circ> Requests)
     (buildHttpRequestResults id sampleShow Map.empty ''f'' ''f.http''
        \<lparr> requests = [sampleRequest ''A'' 500], connectionError = None, foundHttpRequest = True \<rparr>
        Map.empty) = [[''Failed'']]"
  by (simp add: buildHttpRequestResults_def truthy_def Let_def customCsxResult_def groupStatus_def
      requestResult_status httpSuccess_def sampleRequest_def STATUS_FAILED_def)

section \<open>Connection errors\<close>










section \<open>Attribution of test cases by position\<close>

lemma total_sum: "foldl (\<lambda>sum req. sum + directiveCount req) a reqs = a + sum_list (map directiveCount reqs)"
  by (induction reqs arbitrary: a) auto

lemma distribute_other:
  "k \<notin> set (positiveNames reqs) \<Longrightarrow> distribute reqs inl idx m k = m k"
  by (induction reqs arbitrary: idx m) (auto simp: positiveNames_def Let_def)

lemma distribute_slice:
  assumes "i < length reqs" "0 < directiveCount (reqs ! i)" "distinct (positiveNames reqs)"
  shows "distribute reqs inl idx m (fileRequestName (reqs ! i)) =
           (if take (directiveCount (reqs ! i)) (drop (idx + offsetOf reqs i) inl) \<noteq> []
            then Some (take (directiveCount (reqs ! i)) (drop (idx + offsetOf reqs i) inl))
            else m (fileRequestName (reqs ! i)))"
  using assms
proof (induction reqs arbitrary: i idx m)
  case Nil
  then show ?case by simp
next
  case (Cons req rest)
  show ?case
  proof (cases i)
    case 0
    with Cons.prems have pos: "0 < directiveCount req" by simp
    with Cons.prems(3) have "fileRequestName req \<notin> set (positiveNames rest)"
      by (simp add: positiveNames_def)
    from distribute_other[OF this] pos show ?thesis
      by (simp add: 0 Let_def offsetOf_def)
  next
    case (Suc j)
    with Cons.prems have j: "j < length rest" and pj: "0 < directiveCount (rest ! j)" by simp_all
    from Cons.prems(3) have d: "distinct (positiveNames rest)"
      by (simp add: positiveNames_def split: if_splits)
    note IH = Cons.IH[OF j pj d]
    show ?thesis
    proof (cases "0 < directiveCount req")
      case True
      from j pj have "fileRequestName (rest ! j) \<in> set (positiveNames rest)"
        by (auto simp: positiveNames_def)
      with Cons.prems(3) True have ne: "fileRequestName req \<noteq> fileRequestName (rest ! j)"
        by (auto simp: positiveNames_def)
      have off: "idx + directiveCount req + offsetOf rest j = idx + offsetOf (req # rest) (Suc j)"
        by (simp add: offsetOf_def)
      show ?thesis using True ne
        by (simp add: Suc Let_def IH off[symmetric] add.assoc)
    next
      case False
      then have off: "offsetOf (req # rest) (Suc j) = offsetOf rest j" by (simp add: offsetOf_def)
      show ?thesis using False by (simp add: Suc IH off)
    qed
  qed
qed

lemma offsetOf_Suc: "i < length reqs \<Longrightarrow> offsetOf reqs (Suc i) = offsetOf reqs i + directiveCount (reqs ! i)"
  by (simp add: offsetOf_def take_Suc_conv_app_nth)

lemma offsetOf_le: "offsetOf reqs i \<le> offsetOf reqs (length reqs)"
proof -
  have "sum_list (map directiveCount reqs) =
        sum_list (map directiveCount (take i reqs)) + sum_list (map directiveCount (drop i reqs))"
    by (metis append_take_drop_id map_append sum_list.append)
  then show ?thesis by (simp add: offsetOf_def)
qed

lemma slice_of_prefix:
  assumes "off + c \<le> tot"
  shows "take c (drop off (take tot xs)) = take c (drop off xs)"
proof -
  have "take c (drop off (take tot xs)) = take c (take (tot - off) (drop off xs))"
    by (simp add: drop_take)
  also have "\<dots> = take (min c (tot - off)) (drop off xs)" by simp
  also from assms have "min c (tot - off) = c" by simp
  finally show ?thesis .
qed

lemma toTestResult_inline: "t \<in> set (map toTestResult cs) \<Longrightarrow> Source t = Some inline"
  by (auto simp: toTestResult_def)

lemma processSuite_partition:
  assumes "\<not> str_includes (suiteName suite) ''Custom CSX Tests''"
    and "testCases suite \<noteq> []"
    and "list_ex (\<lambda>req. hasTestDirectives req = Some True) reqs"
  shows "processSuite (Some reqs) (tr, atr) suite =
     (let allTests = map toTestResult (testCases suite);
          tot = offsetOf reqs (length reqs);
          distributed = distribute reqs (take tot allTests) 0 atr
      in Some (tr(suiteName suite \<mapsto> take tot allTests @ map markCsx (drop tot allTests)),
               if drop tot allTests \<noteq> []
               then distributed(CUSTOM_CSX_KEY \<mapsto> existingCustom distributed @ map markCsx (drop tot allTests))
               else distributed))"
  using assms by (simp add: processSuite_def Let_def total_sum offsetOf_def)

lemma sample_not_marker: "\<not> str_includes ''S'' ''Custom CSX Tests''"
  by (simp add: str_includes_def sublist_Cons_right prefix_Cons)

lemma sample_marker: "str_includes ''Custom CSX Tests'' ''Custom CSX Tests''"
  by (simp add: str_includes_def)

lemma sample_names:
  "fileRequestName (sampleFileRequest nm c) = (if nm = [] then ''GET http://h/'' else nm)"
  "directiveCount (sampleFileRequest nm c) = c"
  "hasTestDirectives (sampleFileRequest nm c) = Some (0 < c)"
  by (simp_all add: fileRequestName_def directiveCount_def sampleFileRequest_def or_else_def)

text \<open>
  Claim C4 as stated fails: with directive counts [2, 1] and a suite of two test cases, the
  second request, which declares one directive, gets no test at all.
\<close>

theorem partition_by_directive_counts_counterexample:
  "processSuite (Some [sampleFileRequest ''R1'' 2, sampleFileRequest ''R2'' 1]) (Map.empty, Map.empty)
     (sampleSuite ''S'' [''t1'', ''t2'']) \<noteq> None \<and>
   snd (the (processSuite (Some [sampleFileRequest ''R1'' 2, sampleFileRequest ''R2'' 1]) (Map.empty, Map.empty)
     (sampleSuite ''S'' [''t1'', ''t2'']))) ''R2'' = None \<and>
   directiveCount (sampleFileRequest ''R2'' 1) = 1"
  by (simp add: processSuite_partition sample_not_marker sampleSuite_def sample_names Let_def offsetOf_def)

text \<open>
  Claim C4, amended. For a suite without the marker in its name and with at least one test
  case, where some request has \<open>hasTestDirectives\<close> set and the requests with a positive
  directive count have distinct names, none of them the reserved key: each such request is
  given the slice of the suite's test cases that starts at the sum of the counts before it
  and has its count as length, cut at the end of the suite; the slice has exactly the
  declared count of cases when the suite is long enough, its tests are tagged inline, and an
  empty slice sets no entry. The cases after the first \<open>\<Sigma>\<close> counts are appended to the
  entry of the reserved key, tagged csx.
\<close>

theorem partition_by_directive_counts:
  assumes nm: "\<not> str_includes (suiteName suite) ''Custom CSX Tests''"
    and ne: "testCases suite \<noteq> []"
    and hd: "list_ex (\<lambda>req. hasTestDirectives req = Some True) reqs"
    and dist: "distinct (positiveNames reqs)"
    and res: "CUSTOM_CSX_KEY \<notin> set (positiveNames reqs)"
  shows "\<exists>tr' atr'.
     processSuite (Some reqs) (tr, atr) suite = Some (tr', atr') \<and>
     (\<forall>i<length reqs. 0 < directiveCount (reqs ! i) \<longrightarrow>
        atr' (fileRequestName (reqs ! i)) =
          (if take (directiveCount (reqs ! i)) (drop (offsetOf reqs i) (map toTestResult (testCases suite))) \<noteq> []
           then Some (take (directiveCount (reqs ! i)) (drop (offsetOf reqs i) (map toTestResult (testCases suite))))
           else atr (fileRequestName (reqs ! i))) \<and>
        (offsetOf reqs i + directiveCount (reqs ! i) \<le> length (testCases suite) \<longrightarrow>
           length (take (directiveCount (reqs ! i)) (drop (offsetOf reqs i) (map toTestResult (testCases suite))))
             = directiveCount (reqs ! i)) \<and>
        (\<forall>t\<in>set (take (directiveCount (reqs ! i)) (drop (offsetOf reqs i) (map toTestResult (testCases suite)))).
           Source t = Some inline)) \<and>
     atr' CUSTOM_CSX_KEY =
       (if drop (offsetOf reqs (length reqs)) (map toTestResult (testCases suite)) \<noteq> []
        then Some (existingCustom atr @
                   map markCsx (drop (offsetOf reqs (length reqs)) (map toTestResult (testCases suite))))
        else atr CUSTOM_CSX_KEY)"
proof -
  let ?all = "map toTestResult (testCases suite)"
  let ?tot = "offsetOf reqs (length reqs)"
  let ?dist = "distribute reqs (take ?tot ?all) 0 atr"
  let ?tr' = "tr(suiteName suite \<mapsto> take ?tot ?all @ map markCsx (drop ?tot ?all))"
  let ?atr' = "if drop ?tot ?all \<noteq> []
               then ?dist(CUSTOM_CSX_KEY \<mapsto> existingCustom ?dist @ map markCsx (drop ?tot ?all))
               else ?dist"
  have ps: "processSuite (Some reqs) (tr, atr) suite = Some (?tr', ?atr')"
    using processSuite_partition[OF nm ne hd, of tr atr] by (simp add: Let_def)
  have dk: "?dist CUSTOM_CSX_KEY = atr CUSTOM_CSX_KEY" by (rule distribute_other[OF res])
  then have ec: "existingCustom ?dist = existingCustom atr" by (simp add: existingCustom_def)
  have custom: "?atr' CUSTOM_CSX_KEY =
       (if drop ?tot ?all \<noteq> [] then Some (existingCustom atr @ map markCsx (drop ?tot ?all))
        else atr CUSTOM_CSX_KEY)"
  proof (cases "drop ?tot ?all = []")
    case True
    show ?thesis by (simp only: True simp_thms if_False dk)
  next
    case False
    show ?thesis by (simp only: False simp_thms if_True fun_upd_same ec)
  qed
  have per: "?atr' (fileRequestName (reqs ! i)) =
          (if take (directiveCount (reqs ! i)) (drop (offsetOf reqs i) ?all) \<noteq> []
           then Some (take (directiveCount (reqs ! i)) (drop (offsetOf reqs i) ?all))
           else atr (fileRequestName (reqs ! i))) \<and>
        (offsetOf reqs i + directiveCount (reqs ! i) \<le> length (testCases suite) \<longrightarrow>
           length (take (directiveCount (reqs ! i)) (drop (offsetOf reqs i) ?all)) = directiveCount (reqs ! i)) \<and>
        (\<forall>t\<in>set (take (directiveCount (reqs ! i)) (drop (offsetOf reqs i) ?all)). Source t = Some inline)"
    if i: "i < length reqs" and pos: "0 < directiveCount (reqs ! i)" for i
  proof -
    from i pos have "fileRequestName (reqs ! i) \<in> set (positiveNames reqs)"
      by (auto simp: positiveNames_def)
    with res have nk: "fileRequestName (reqs ! i) \<noteq> CUSTOM_CSX_KEY" by auto
    have le: "offsetOf reqs i + directiveCount (reqs ! i) \<le> ?tot"
      using offsetOf_le[of reqs "Suc i"] offsetOf_Suc[OF i] by simp
    have sl: "take (directiveCount (reqs ! i)) (drop (0 + offsetOf reqs i) (take ?tot ?all)) =
              take (directiveCount (reqs ! i)) (drop (offsetOf reqs i) ?all)"
      using slice_of_prefix[OF le] by simp
    have a: "?atr' (fileRequestName (reqs ! i)) = ?dist (fileRequestName (reqs ! i))"
    proof (cases "drop ?tot ?all = []")
      case True
      show ?thesis by (simp only: True simp_thms if_False)
    next
      case False
      show ?thesis using nk by (simp only: False simp_thms if_True fun_upd_other)
    qed
    have b: "?dist (fileRequestName (reqs ! i)) =
          (if take (directiveCount (reqs ! i)) (drop (offsetOf reqs i) ?all) \<noteq> []
           then Some (take (directiveCount (reqs ! i)) (drop (offsetOf reqs i) ?all))
           else atr (fileRequestName (reqs ! i)))"
      unfolding distribute_slice[OF i pos dist] sl ..
    have c: "offsetOf reqs i + directiveCount (reqs ! i) \<le> length (testCases suite) \<longrightarrow>
           length (take (directiveCount (reqs ! i)) (drop (offsetOf reqs i) ?all)) = directiveCount (reqs ! i)"
      by simp
    have d: "\<forall>t\<in>set (take (directiveCount (reqs ! i)) (drop (offsetOf reqs i) ?all)). Source t = Some inline"
      using toTestResult_inline[of _ "testCases suite"] by (meson in_set_dropD in_set_takeD)
    from a b c d show ?thesis by simp
  qed
  show ?thesis
    apply (rule exI[of _ ?tr'], rule exI[of _ ?atr'])
    apply (intro conjI allI impI)
       apply (rule ps)
    using per custom by blast+
qed

theorem partition_by_directive_counts_witness:
  "\<exists>tr' atr'.
     processSuite (Some [sampleFileRequest ''R1'' 2, sampleFileRequest ''R2'' 1]) (Map.empty, Map.empty)
       (sampleSuite ''S'' [''t1'', ''t2'', ''t3'', ''t4'']) = Some (tr', atr') \<and>
     atr' ''R1'' = Some [toTestResult (sampleCase ''t1''), toTestResult (sampleCase ''t2'')] \<and>
     atr' ''R2'' = Some [toTestResult (sampleCase ''t3'')] \<and>
     atr' CUSTOM_CSX_KEY = Some [markCsx (toTestResult (sampleCase ''t4''))] \<and>
     Source (markCsx (toTestResult (sampleCase ''t4''))) = Some csx"
proof -
  let ?reqs = "[sampleFileRequest ''R1'' 2, sampleFileRequest ''R2'' 1]"
  let ?suite = "sampleSuite ''S'' [''t1'', ''t2'', ''t3'', ''t4'']"
  have nm: "\<not> str_includes (suiteName ?suite) ''Custom CSX Tests''"
    by (simp add: sampleSuite_def sample_not_marker)
  have ne: "testCases ?suite \<noteq> []" by (simp add: sampleSuite_def)
  have hd: "list_ex (\<lambda>req. hasTestDirectives req = Some True) ?reqs" by (simp add: sample_names)
  have dist: "distinct (positiveNames ?reqs)" by (simp add: positiveNames_def sample_names)
  have res: "CUSTOM_CSX_KEY \<notin> set (positiveNames ?reqs)"
    by (simp add: positiveNames_def sample_names CUSTOM_CSX_KEY_def)
  from partition_by_directive_counts[OF nm ne hd dist res, of Map.empty Map.empty]
  obtain tr' atr' where ps: "processSuite (Some ?reqs) (Map.empty, Map.empty) ?suite = Some (tr', atr')"
    and per: "\<forall>i<length ?reqs. 0 < directiveCount (?reqs ! i) \<longrightarrow>
        atr' (fileRequestName (?reqs ! i)) =
          (if take (directiveCount (?reqs ! i)) (drop (offsetOf ?reqs i) (map toTestResult (testCases ?suite))) \<noteq> []
           then Some (take (directiveCount (?reqs ! i)) (drop (offsetOf ?reqs i) (map toTestResult (testCases ?suite))))
           else Map.empty (fileRequestName (?reqs ! i))) \<and>
        (offsetOf ?reqs i + directiveCount (?reqs ! i) \<le> length (testCases ?suite) \<longrightarrow>
           length (take (directiveCount (?reqs ! i)) (drop (offsetOf ?reqs i) (map toTestResult (testCases ?suite))))
             = directiveCount (?reqs ! i)) \<and>
        (\<forall>t\<in>set (take (directiveCount (?reqs ! i)) (drop (offsetOf ?reqs i) (map toTestResult (testCases ?suite)))).
           Source t = Some inline)"
    and cu: "atr' CUSTOM_CSX_KEY =
       (if drop (offsetOf ?reqs (length ?reqs)) (map toTestResult (testCases ?suite)) \<noteq> []
        then Some (existingCustom Map.empty @
                   map markCsx (drop (offsetOf ?reqs (length ?reqs)) (map toTestResult (testCases ?suite))))
        else Map.empty CUSTOM_CSX_KEY)"
    by (elim exE conjE)
  from per[rule_format, of 0] have r1: "atr' ''R1'' = Some [toTestResult (sampleCase ''t1''), toTestResult (sampleCase ''t2'')]"
    by (simp add: sample_names offsetOf_def sampleSuite_def)
  from per[rule_format, of 1] have r2: "atr' ''R2'' = Some [toTestResult (sampleCase ''t3'')]"
    by (simp add: sample_names offsetOf_def sampleSuite_def)
  from cu have c: "atr' CUSTOM_CSX_KEY = Some [markCsx (toTestResult (sampleCase ''t4''))]"
    by (simp add: sample_names offsetOf_def sampleSuite_def existingCustom_def)
  have s: "Source (markCsx (toTestResult (sampleCase ''t4''))) = Some csx" by (simp add: markCsx_def)
  from ps r1 r2 c s show ?thesis by blast
qed

text \<open>
  Claim C5, evaluated: the test of a suite named \<open>Custom CSX Tests\<close> and the test moved
  to the reserved key because no request has directives are both stored there with the tag
  \<open>inline\<close> they were built with; only the tests after the positional prefix are tagged
  \<open>csx\<close>.
\<close>

theorem global_bucket_keeps_inline_tag:
  "map_option (map Source)
     (parseTestResultsFromXml (Some [sampleFileRequest ''R1'' 1])
        (Some [sampleSuite ''Custom CSX Tests'' [''t1'']]) CUSTOM_CSX_KEY) = Some [Some inline] \<and>
   map_option (map Source)
     (parseTestResultsFromXml (Some [sampleFileRequest ''R1'' 0])
        (Some [sampleSuite ''S'' [''t1'']]) CUSTOM_CSX_KEY) = Some [Some inline] \<and>
   map_option (map Source)
     (parseTestResultsFromXml (Some [sampleFileRequest ''R1'' 1])
        (Some [sampleSuite ''S'' [''t1'', ''t2'']]) CUSTOM_CSX_KEY) = Some [Some csx]"
  by (simp add: parseTestResultsFromXml_def processSuite_def sampleSuite_def sample_marker sample_not_marker
      sample_names Let_def existingCustom_def toTestResult_def markCsx_def CUSTOM_CSX_KEY_def map_add_def)

section \<open>Waiting for the report\<close>

lemma clock_advances:
  assumes "now 0 \<le> now (Suc 0)" "\<forall>k. now (Suc k) + pollInterval \<le> now (Suc (Suc k))"
  shows "now 0 + pollInterval * int k \<le> now (Suc k)"
proof (induction k)
  case 0
  with assms(1) show ?case by simp
next
  case (Suc k)
  from assms(2) have "now (Suc k) + pollInterval \<le> now (Suc (Suc k))" by blast
  with Suc show ?case by (simp add: algebra_simps)
qed

lemma waitLoop_returns:
  assumes c0: "now 0 \<le> now (Suc 0)" and c: "\<forall>k. now (Suc k) + pollInterval \<le> now (Suc (Suc k))"
  shows "0 < fuel \<Longrightarrow> nat (maxWaitTime div pollInterval) + 2 \<le> fuel + k \<Longrightarrow>
         \<exists>r. waitLoop fuel sn now stat (now 0) beforeTimestamp maxWaitTime k = Some r"
proof (induction fuel arbitrary: k)
  case 0
  then show ?case by simp
next
  case (Suc fuel)
  show ?case
  proof (cases "now (Suc k) - now 0 < maxWaitTime")
    case False
    then show ?thesis by simp
  next
    case True
    from clock_advances[OF c0 c, of k] True have lt: "pollInterval * int k < maxWaitTime" by simp
    have fpos: "0 < fuel"
    proof (rule ccontr)
      assume "\<not> 0 < fuel"
      then have "fuel = 0" by simp
      with Suc.prems(2) have "nat (maxWaitTime div pollInterval) + 1 \<le> k" by simp
      then have "maxWaitTime div 100 + 1 \<le> int k" by (simp add: pollInterval_def)
      then have "maxWaitTime < 100 * int k" by linarith
      with lt show False by (simp add: pollInterval_def)
    qed
    from Suc.prems(2) have "nat (maxWaitTime div pollInterval) + 2 \<le> fuel + Suc k" by simp
    from Suc.IH[OF fpos this] obtain r where
      r: "waitLoop fuel sn now stat (now 0) beforeTimestamp maxWaitTime (Suc k) = Some r" by blast
    show ?thesis using True r by (cases "stat k") auto
  qed
qed

text \<open>
  Claim C9. Every outcome of the waiter is a normal return: no branch of it raises. If the
  clock does not run backwards before the first poll and every wait between two polls
  advances it by the poll interval at least, the waiter returns once the fuel covers
  \<open>maxWaitMs / pollInterval + 2\<close> polls. Within the time limit a rejected \<open>fs.stat\<close> (the
  file is missing) and a modification time not after the baseline both go on to the next
  poll, and a later modification time returns after the settle delay; past the limit the
  waiter returns after appending the warning.
\<close>

theorem waiter_returns_normally:
  assumes "now 0 \<le> now (Suc 0)" and "\<forall>k. now (Suc k) + pollInterval \<le> now (Suc (Suc k))"
    and "nat (maxWaitMs div pollInterval) + 2 \<le> fuel"
  shows "(\<exists>r. waitForXmlReportUpdate fuel sn now stat beforeTimestamp maxWaitMs = Some r) \<and>
         (\<forall>f k. now (Suc k) - now 0 < maxWaitMs \<and> stat k = StatRejected \<longrightarrow>
            waitLoop (Suc f) sn now stat (now 0) beforeTimestamp maxWaitMs k =
            waitLoop f sn now stat (now 0) beforeTimestamp maxWaitMs (Suc k)) \<and>
         (\<forall>f k t. now (Suc k) - now 0 < maxWaitMs \<and> stat k = Mtime t \<and> beforeTimestamp < t \<longrightarrow>
            waitLoop (Suc f) sn now stat (now 0) beforeTimestamp maxWaitMs k = Some ReturnedAfterSettle) \<and>
         (\<forall>f k t. now (Suc k) - now 0 < maxWaitMs \<and> stat k = Mtime t \<and> t \<le> beforeTimestamp \<longrightarrow>
            waitLoop (Suc f) sn now stat (now 0) beforeTimestamp maxWaitMs k =
            waitLoop f sn now stat (now 0) beforeTimestamp maxWaitMs (Suc k)) \<and>
         (\<forall>f k. \<not> now (Suc k) - now 0 < maxWaitMs \<longrightarrow>
            waitLoop (Suc f) sn now stat (now 0) beforeTimestamp maxWaitMs k =
            Some (ReturnedAfterWarning
                    (''Warning: XML report file was not updated within '' @ sn maxWaitMs @
                     ''ms. This might indicate an issue with TeaPie test execution.'')))"
proof (intro conjI)
  from assms(3) have "0 < fuel" by simp
  from waitLoop_returns[OF assms(1,2) this, of maxWaitMs 0] assms(3)
  show "\<exists>r. waitForXmlReportUpdate fuel sn now stat beforeTimestamp maxWaitMs = Some r"
    by (simp add: waitForXmlReportUpdate_def)
qed auto

theorem waiter_returns_normally_witness:
  "(\<exists>r. waitForXmlReportUpdate 4 sampleShow (\<lambda>k. 100 * int k) (\<lambda>k. StatRejected) 0 250 = Some r) \<and>
   waitLoop (Suc 0) sampleShow (\<lambda>k. 100 * int k) (\<lambda>k. StatRejected) 0 0 250 3 =
     Some (ReturnedAfterWarning
             (''Warning: XML report file was not updated within '' @ sampleShow 250 @
              ''ms. This might indicate an issue with TeaPie test execution.''))"
proof -
  have a: "(\<lambda>k. 100 * int k) 0 \<le> (\<lambda>k. 100 * int k) (Suc 0)" by simp
  have b: "\<forall>k. (\<lambda>k. 100 * int k) (Suc k) + pollInterval \<le> (\<lambda>k. 100 * int k) (Suc (Suc k))"
    by (simp add: pollInterval_def)
  have c: "nat (250 div pollInterval) + 2 \<le> (4::nat)" by (simp add: pollInterval_def)
  from waiter_returns_normally[OF a b c, of sampleShow "\<lambda>k. StatRejected" 0]
  show ?thesis by simp
qed

end
